theory Spec2Isabelle
  imports Main
begin

section \<open>cleanarg: the token classification and assignment engine\<close>

text \<open>
  A shallow embedding of \<^verbatim>\<open>cleanarg.go\<close>. Go strings are byte sequences, so a string
  is a \<^typ>\<open>string\<close> (a list of 8-bit characters), \<^verbatim>\<open>len\<close> is \<^const>\<open>length\<close> and the
  slices \<^verbatim>\<open>s[0:2]\<close>, \<^verbatim>\<open>s[2:]\<close> are \<^term>\<open>take 2 s\<close> and \<^term>\<open>drop 2 s\<close>. A Go slice
  is a list; a nil slice and an empty slice are both \<^term>\<open>[]\<close> (the only place that
  looks, \<^verbatim>\<open>populateField\<close>, makes a nil slice an empty one before it appends).

  The reflection layer (\<^verbatim>\<open>unwrap\<close>, \<^verbatim>\<open>analyzeStruct\<close>, \<^verbatim>\<open>makeFieldInfo\<close>) is not
  embedded: the model starts from its result, the option map and the ordered positional
  fields, and from a store that stands for the struct being populated.
\<close>

subsection \<open>The data model\<close>

text \<open>
  \<^verbatim>\<open>baseType\<close> is a \<^verbatim>\<open>reflect.Type\<close>; \<^verbatim>\<open>allowedTypes\<close> admits six of them. \<open>TOther\<close>
  stands for every other type (also the nil type of a zero \<^verbatim>\<open>fieldInfo{}\<close>), which
  only the \<^verbatim>\<open>default\<close> branch of \<^verbatim>\<open>convertToType\<close> meets.
\<close>

datatype baseType = TBool | TString | TInt | TFloat | TTime | TDuration | TOther

text \<open>
  The struct \<^verbatim>\<open>fieldInfo\<close>. \<open>Name\<close> is the \<^verbatim>\<open>Name\<close> of the embedded
  \<^verbatim>\<open>reflect.StructField\<close>, the only part of it that the engine reads.
\<close>

record fieldInfo =
  Name :: string
  flag :: string
  value' :: string
  help' :: string
  defaultval :: string
  format :: string
  isSlice :: bool
  baseType :: baseType
  allFlags :: "string list"

text \<open>
  \<^verbatim>\<open>map[string]fieldInfo\<close>: an association list read with \<^const>\<open>map_of\<close>. The order of
  the list stands for the (unspecified) order in which Go ranges over the map.
\<close>

type_synonym options = "(string \<times> fieldInfo) list"

text \<open>
  The errors the engine returns, one constructor for each \<^verbatim>\<open>fmt.Errorf\<close> of the code
  and one for the errors of \<^verbatim>\<open>strconv\<close> and \<^verbatim>\<open>time\<close>, with the text that the message
  interpolates.
\<close>

datatype error =
    NotEnoughTokens string
  | UnexpectedInCompound string
  | ConversionError string
  | InvalidType
  | TooManySlices
  | FieldCountMismatch
  | NotEnoughPositionalTokens
  | PopulatePositional nat
  | PopulateSlice

subsection \<open>The token classifier\<close>

definition endFlagsIndicator :: string where
  "endFlagsIndicator = ''--''"

definition HasPrefix :: "string \<Rightarrow> string \<Rightarrow> bool" where
  "HasPrefix s p = (take (length p) s = p)"

text \<open>
  \<^verbatim>\<open>strings.Cut(s, sep)\<close> for a separator of one byte: the text before the first
  occurrence, the text after it, and whether it occurs.
\<close>

fun Cut :: "string \<Rightarrow> char \<Rightarrow> string \<times> string \<times> bool" where
  "Cut [] sep = ([], [], False)"
| "Cut (c # s) sep =
     (if c = sep then ([], s, True)
      else (case Cut s sep of (before, after, found) \<Rightarrow> (c # before, after, found)))"

definition chopToken :: "string \<Rightarrow> string \<times> string" where
  "chopToken s =
     (if s = ''--'' \<or> s = ''-'' \<or> s = ''+'' then (s, [])
      else if HasPrefix s ''--'' then
        (case Cut s CHR ''='' of (key, rest, found) \<Rightarrow> (key, rest))
      else if HasPrefix s ''-'' \<or> HasPrefix s ''+'' then (take 2 s, drop 2 s)
      else (s, []))"

subsection \<open>The flag and positional resolver\<close>

text \<open>
  The variables of the loop of \<^verbatim>\<open>processMaybeFlags\<close>: the pending \<^verbatim>\<open>token\<close>, the
  queue \<^verbatim>\<open>tokens\<close>, \<^verbatim>\<open>isCompound\<close>, and the two results under construction.
\<close>

record pstate =
  token :: string
  tokens :: "string list"
  isCompound :: bool
  flags :: "fieldInfo list"
  positionals :: "string list"

text \<open>
  The three values a Go function of type \<^verbatim>\<open>([]fieldInfo, []string, error)\<close> returns;
  \<^term>\<open>None\<close> is the nil error.
\<close>

type_synonym resolved = "fieldInfo list \<times> string list \<times> error option"

datatype step = Continue pstate | Return resolved

text \<open>
  The head of the loop body: an empty pending token is replaced by the first token of
  the queue, and that ends a compound chain. The loop condition
  \<^verbatim>\<open>len(tokens) > 0 || token != ""\<close> makes the queue non-empty whenever the pending
  token is empty, so the last case is never met.
\<close>

definition refill :: "pstate \<Rightarrow> pstate" where
  "refill s =
     (if token s = [] then
        (case tokens s of
           t # ts \<Rightarrow> s\<lparr>token := t, tokens := ts, isCompound := False\<rparr>
         | [] \<Rightarrow> s)
      else s)"

text \<open>
  One pass through the loop body, from the pending token to either the \<^verbatim>\<open>continue\<close>,
  the end of the body (both \<open>Continue\<close>) or a \<^verbatim>\<open>return\<close>. The \<^verbatim>\<open>switch\<close> is kept
  with its three cases and its \<^verbatim>\<open>default\<close>.
\<close>

definition body :: "options \<Rightarrow> bool \<Rightarrow> pstate \<Rightarrow> step" where
  "body opts isFused s0 =
     (let s = refill s0 in
      case chopToken (token s) of (key, rest) \<Rightarrow>
        (case map_of opts key of
           None \<Rightarrow>
             if isCompound s then Return ([], [], Some (UnexpectedInCompound (token s)))
             else Continue (s\<lparr>positionals := positionals s @ [token s], token := []\<rparr>)
         | Some info \<Rightarrow>
             (let isFlagBoolean = (baseType info = TBool);
                  isRestEmpty = (rest = [])
              in if isFlagBoolean = isRestEmpty then
                   Continue (s\<lparr>token := [],
                     flags := flags s @ [info\<lparr>flag := key, value' := rest\<rparr>]\<rparr>)
                 else if isFlagBoolean \<and> \<not> isRestEmpty then
                   Continue (s\<lparr>token := CHR ''-'' # rest, isCompound := True,
                     flags := flags s @ [info\<lparr>flag := key, value' := []\<rparr>]\<rparr>)
                 else if \<not> isFlagBoolean \<and> isRestEmpty then
                   (if isFused then
                      Continue (s\<lparr>token := [],
                        flags := flags s @ [info\<lparr>flag := key, value' := defaultval info\<rparr>]\<rparr>)
                    else
                      (case tokens s of
                         t # ts \<Rightarrow>
                           Continue (s\<lparr>token := [], tokens := ts,
                             flags := flags s @ [info\<lparr>flag := key, value' := t\<rparr>]\<rparr>)
                       | [] \<Rightarrow> Return ([], [], Some (NotEnoughTokens key))))
                 else Continue (s\<lparr>flags := flags s @ [info]\<rparr>))))"

text \<open>A compound remainder is shorter than the token it was chopped from.\<close>

lemma Cut_length: "Cut s sep = (k, r, found) \<Longrightarrow> length k + length r \<le> length s"
  by (induction s arbitrary: k r found) (auto split: if_splits prod.splits)

lemma chopToken_rest_shorter:
  assumes "chopToken t = (k, r)" and "r \<noteq> []"
  shows "Suc (length r) < length t"
proof (cases "t = ''--'' \<or> t = ''-'' \<or> t = ''+''")
  case True
  with assms show ?thesis by (auto simp: chopToken_def)
next
  case lone: False
  show ?thesis
  proof (cases "HasPrefix t ''--''")
    case True
    then obtain u where t: "t = CHR ''-'' # CHR ''-'' # u"
      by (cases t; cases "tl t") (auto simp: HasPrefix_def)
    obtain k' r' f' where c: "Cut u CHR ''='' = (k', r', f')"
      by (cases "Cut u CHR ''=''") auto
    then have "length k' + length r' \<le> length u" by (rule Cut_length)
    moreover from assms lone True t c have "r = r'"
      by (auto simp: chopToken_def)
    ultimately show ?thesis using t by simp
  next
    case False
    with assms lone show ?thesis
      by (cases t; cases "tl t") (auto simp: chopToken_def split: if_splits)
  qed
qed

lemma body_decreases:
  assumes "tokens s \<noteq> [] \<or> token s \<noteq> []" and "body opts isFused s = Continue s'"
  shows "length (tokens s') < length (tokens s)
         \<or> (length (tokens s') = length (tokens s) \<and> length (token s') < length (token s))"
proof (cases "token s = []")
  case True
  with assms(1) obtain t ts where ts: "tokens s = t # ts" by (cases "tokens s") auto
  with True assms(2) have "length (tokens s') \<le> length ts"
    by (auto simp: body_def refill_def Let_def
        split: prod.splits option.splits if_splits list.splits)
  with ts show ?thesis by simp
next
  case False
  then have r: "refill s = s" by (simp add: refill_def)
  obtain k rest where c: "chopToken (token s) = (k, rest)" by (cases "chopToken (token s)") auto
  have short: "rest \<noteq> [] \<Longrightarrow> Suc (length rest) < length (token s)"
    using chopToken_rest_shorter [OF c] .
  from assms(2) False short show ?thesis
    by (auto simp: body_def r c Let_def split: option.splits if_splits list.splits)
qed

function loop :: "options \<Rightarrow> bool \<Rightarrow> pstate \<Rightarrow> resolved" where
  "loop opts isFused s =
     (if tokens s \<noteq> [] \<or> token s \<noteq> [] then
        (case body opts isFused s of
           Return r \<Rightarrow> r
         | Continue s' \<Rightarrow> loop opts isFused s')
      else (flags s, positionals s, None))"
  by pat_completeness auto
termination
proof (relation "measures [\<lambda>(opts, isFused, s). length (tokens s),
                           \<lambda>(opts, isFused, s). length (token s)]")
  show "wf (measures [\<lambda>(opts, isFused, s). length (tokens s),
                      \<lambda>(opts, isFused, s). length (token s)])"
    by simp
next
  fix opts :: options and isFused :: bool and s s' :: pstate
  assume "tokens s \<noteq> [] \<or> token s \<noteq> []" and "body opts isFused s = Continue s'"
  then have "length (tokens s') < length (tokens s)
         \<or> (length (tokens s') = length (tokens s) \<and> length (token s') < length (token s))"
    by (rule body_decreases)
  then show "((opts, isFused, s'), (opts, isFused, s))
      \<in> measures [\<lambda>(opts, isFused, s). length (tokens s),
                   \<lambda>(opts, isFused, s). length (token s)]"
    by auto
qed

declare loop.simps [simp del]

definition processMaybeFlags :: "string list \<Rightarrow> options \<Rightarrow> bool \<Rightarrow> resolved" where
  "processMaybeFlags toks opts isFused =
     (if toks = [] then ([], [], None)
      else loop opts isFused
        \<lparr>token = [], tokens = toks, isCompound = False, flags = [], positionals = []\<rparr>)"

subsection \<open>The end-of-options splitter\<close>

text \<open>
  The first loop of \<^verbatim>\<open>processTokens3\<close>: the index of the first token equal to
  \<^verbatim>\<open>endFlagsIndicator\<close>, or \<^verbatim>\<open>len(tokens)\<close> when there is none.
\<close>

fun endFlags :: "string list \<Rightarrow> nat" where
  "endFlags [] = 0"
| "endFlags (t # ts) = (if t = endFlagsIndicator then 0 else Suc (endFlags ts))"

text \<open>
  The last loop of \<^verbatim>\<open>processTokens3\<close>, \<^verbatim>\<open>for i := endFlags + 1; i < len(tokens); i++\<close>,
  appending \<^verbatim>\<open>tokens[i]\<close>.
\<close>

function appendFrom :: "nat \<Rightarrow> string list \<Rightarrow> string list \<Rightarrow> string list" where
  "appendFrom i toks acc =
     (if i < length toks then appendFrom (Suc i) toks (acc @ [toks ! i]) else acc)"
  by pat_completeness auto
termination
  by (relation "measure (\<lambda>(i, toks, acc). length toks - i)") auto

declare appendFrom.simps [simp del]

text \<open>
  The error of \<^verbatim>\<open>processMaybeFlags\<close> is not inspected before the loop: the tokens after
  the marker are appended to whatever positionals came back (none, on an error), and
  all three values are returned.
\<close>

definition processTokens3 :: "options \<Rightarrow> string list \<Rightarrow> bool \<Rightarrow> resolved" where
  "processTokens3 opts toks isFused =
     (let e = endFlags toks in
      case processMaybeFlags (take e toks) opts isFused of
        (fs, ps, err) \<Rightarrow> (fs, appendFrom (e + 1) toks ps, err))"

definition processTokens :: "options \<Rightarrow> string list \<Rightarrow> bool \<Rightarrow> resolved" where
  "processTokens opts toks isFused = processTokens3 opts toks isFused"

subsection \<open>The type converter\<close>

text \<open>
  The values a field can hold. \<^verbatim>\<open>float64\<close> and \<^verbatim>\<open>time.Time\<close> are kept abstract; a
  \<^verbatim>\<open>time.Duration\<close> is its count of nanoseconds.
\<close>

typedecl float64
typedecl time

datatype val =
    VBool bool
  | VString string
  | VInt int
  | VFloat float64
  | VTime time
  | VDuration int

text \<open>
  The parsers of Go's standard library that \<^verbatim>\<open>convertToType\<close> calls and that are not
  part of the package: \<^verbatim>\<open>strconv.ParseFloat(s, 64)\<close>, \<^verbatim>\<open>time.Parse(layout, s)\<close> and
  \<^verbatim>\<open>time.ParseDuration(s)\<close>. What they make of a non-empty string is a parameter of the
  model; \<^term>\<open>None\<close> is a non-nil error.
\<close>

record stdlib =
  float_of :: "string \<Rightarrow> float64 option"
  time_of :: "string \<Rightarrow> string \<Rightarrow> time option"
  duration_of :: "string \<Rightarrow> int option"

definition defaultTimeFormat :: string where
  "defaultTimeFormat = ''2006-01-02 15:04:05''"

text \<open>
  On the empty string the library is known. \<^verbatim>\<open>strconv.ParseFloat("", 64)\<close> is a syntax
  error and \<^verbatim>\<open>time.ParseDuration("")\<close> an invalid-duration error. \<^verbatim>\<open>time.Parse(layout, "")\<close>
  is an error when the layout starts with an element that has to be read, as the default
  layout does with its year; for another layout the empty string is left to the
  parameter. \<^verbatim>\<open>Test_convertToType\<close> expects the three errors.
\<close>

definition ParseFloat :: "stdlib \<Rightarrow> string \<Rightarrow> float64 option" where
  "ParseFloat L s = (if s = [] then None else float_of L s)"

definition Parse :: "stdlib \<Rightarrow> string \<Rightarrow> string \<Rightarrow> time option" where
  "Parse L layout s =
     (if s = [] \<and> layout = defaultTimeFormat then None else time_of L layout s)"

definition ParseDuration :: "stdlib \<Rightarrow> string \<Rightarrow> int option" where
  "ParseDuration L s = (if s = [] then None else duration_of L s)"

text \<open>
  \<^verbatim>\<open>strconv.Atoi\<close> for Go's 64-bit \<^verbatim>\<open>int\<close>: an optional sign, then at least one
  decimal digit and nothing else, and a value that fits; every other input is an error.
\<close>

definition digit :: "char \<Rightarrow> nat option" where
  "digit c =
     (let n = (of_char c :: nat) in if 48 \<le> n \<and> n \<le> 57 then Some (n - 48) else None)"

fun digits :: "nat \<Rightarrow> string \<Rightarrow> nat option" where
  "digits n [] = Some n"
| "digits n (c # cs) =
     (case digit c of None \<Rightarrow> None | Some d \<Rightarrow> digits (n * 10 + d) cs)"

definition Atoi :: "string \<Rightarrow> int option" where
  "Atoi s =
     (case s of
        [] \<Rightarrow> None
      | c # cs \<Rightarrow>
          (let ds = (if c = CHR ''-'' \<or> c = CHR ''+'' then cs else s) in
           if ds = [] then None
           else (case digits 0 ds of
                   None \<Rightarrow> None
                 | Some n \<Rightarrow>
                     (let v = (if c = CHR ''-'' then - int n else int n) in
                      if - (2 ^ 63) \<le> v \<and> v < 2 ^ 63 then Some v else None))))"

definition convertToType :: "stdlib \<Rightarrow> fieldInfo \<Rightarrow> error + val" where
  "convertToType L info =
     (let v = (if value' info = [] then defaultval info else value' info) in
      case baseType info of
        TBool \<Rightarrow> Inr (VBool True)
      | TString \<Rightarrow> Inr (VString v)
      | TInt \<Rightarrow>
          (case Atoi v of None \<Rightarrow> Inl (ConversionError v) | Some i \<Rightarrow> Inr (VInt i))
      | TFloat \<Rightarrow>
          (case ParseFloat L v of None \<Rightarrow> Inl (ConversionError v) | Some f \<Rightarrow> Inr (VFloat f))
      | TTime \<Rightarrow>
          (let layout = (if format info \<noteq> [] then format info else defaultTimeFormat) in
           case Parse L layout v of
             None \<Rightarrow> Inl (ConversionError v)
           | Some t \<Rightarrow> Inr (VTime t))
      | TDuration \<Rightarrow>
          (case ParseDuration L v of
             None \<Rightarrow> Inl (ConversionError v)
           | Some d \<Rightarrow> Inr (VDuration d))
      | TOther \<Rightarrow> Inl InvalidType)"

subsection \<open>The assignment engine\<close>

text \<open>
  The struct that is populated, as a store from field names to contents. A field that
  was never written is \<^term>\<open>None\<close>: it holds the zero value of its type (a nil slice,
  for a slice). The type of a Go field is fixed and \<^verbatim>\<open>fieldInfo\<close> is derived from it, so
  a scalar field only ever holds a \<open>Scalar\<close> and a slice field a \<open>Slice\<close>; the fields
  are taken to exist and to be exported (the code panics otherwise).
\<close>

datatype cell = Scalar val | Slice "val list"

type_synonym dest = "string \<Rightarrow> cell option"

text \<open>The elements of a slice field; a nil slice is first made an empty one.\<close>

fun elems :: "cell option \<Rightarrow> val list" where
  "elems (Some (Slice vs)) = vs"
| "elems _ = []"

text \<open>
  The functions below mutate the struct behind \<^verbatim>\<open>v\<close> and return an error; the model
  returns the store with the error, so that what was written before a failure stays
  written.
\<close>

definition populateField :: "stdlib \<Rightarrow> fieldInfo \<Rightarrow> dest \<Rightarrow> dest \<times> error option" where
  "populateField L info v =
     (case convertToType L info of
        Inl err \<Rightarrow> (v, Some err)
      | Inr vv \<Rightarrow>
          if isSlice info then (v(Name info \<mapsto> Slice (elems (v (Name info)) @ [vv])), None)
          else (v(Name info \<mapsto> Scalar vv), None))"

fun populateOptions :: "stdlib \<Rightarrow> fieldInfo list \<Rightarrow> dest \<Rightarrow> dest \<times> error option" where
  "populateOptions L [] v = (v, None)"
| "populateOptions L (info # rest) v =
     (case populateField L info v of
        (v', Some err) \<Rightarrow> (v', Some err)
      | (v', None) \<Rightarrow> populateOptions L rest v')"

text \<open>The first loop of \<^verbatim>\<open>populateDefaults\<close>, over the entries of the option map.\<close>

fun defaultOptions :: "options \<Rightarrow> fieldInfo list" where
  "defaultOptions [] = []"
| "defaultOptions ((k, info) # rest) =
     (if \<not> isSlice info \<and> defaultval info \<noteq> [] then info # defaultOptions rest
      else defaultOptions rest)"

definition populateDefaults :: "stdlib \<Rightarrow> options \<Rightarrow> dest \<Rightarrow> dest \<times> error option" where
  "populateDefaults L opts v = populateOptions L (defaultOptions opts) v"

subsection \<open>The positional distributor\<close>

text \<open>
  The first loop of \<^verbatim>\<open>populatePositionals\<close>: the index of the last slice field and the
  number of slice fields, \<^verbatim>\<open>pos\<close> and \<^verbatim>\<open>cnt\<close>.
\<close>

fun findSlice :: "fieldInfo list \<Rightarrow> nat \<Rightarrow> nat \<times> nat \<Rightarrow> nat \<times> nat" where
  "findSlice [] i (pos, cnt) = (pos, cnt)"
| "findSlice (p # ps) i (pos, cnt) =
     findSlice ps (Suc i) (if isSlice p then (i, cnt + 1) else (pos, cnt))"

text \<open>
  The shape of the four assignment loops: for each index in turn, populate the field
  \<open>infoAt i\<close> (a positional with its \<^verbatim>\<open>value\<close> set) and return \<open>errAt i\<close> at the first
  failure.
\<close>

fun populateEach ::
  "stdlib \<Rightarrow> (nat \<Rightarrow> fieldInfo) \<Rightarrow> (nat \<Rightarrow> error) \<Rightarrow> nat list \<Rightarrow> dest \<Rightarrow> dest \<times> error option"
where
  "populateEach L infoAt errAt [] v = (v, None)"
| "populateEach L infoAt errAt (i # rest) v =
     (case populateField L (infoAt i) v of
        (v', Some err) \<Rightarrow> (v', Some (errAt i))
      | (v', None) \<Rightarrow> populateEach L infoAt errAt rest v')"

text \<open>
  Every index below is in range where it is read: \<open>cnt = 0\<close> reads after the lengths
  were found equal, and with a slice at \<open>pos\<close> the check \<open>between < 0\<close> has passed.
  \<^verbatim>\<open>between\<close> can be negative, so it is an \<^typ>\<open>int\<close>; \<^verbatim>\<open>after\<close> cannot, since \<open>pos\<close>
  is an index of \<open>positionals\<close>.
\<close>

definition populatePositionals ::
  "stdlib \<Rightarrow> fieldInfo list \<Rightarrow> string list \<Rightarrow> dest \<Rightarrow> dest \<times> error option"
where
  "populatePositionals L ps toks v =
     (case findSlice ps 0 (0, 0) of (pos, cnt) \<Rightarrow>
        if cnt > 1 then (v, Some TooManySlices)
        else if cnt = 0 then
          (if length ps \<noteq> length toks then (v, Some FieldCountMismatch)
           else populateEach L (\<lambda>i. (ps ! i)\<lparr>value' := toks ! i\<rparr>) PopulatePositional
                  [0..<length toks] v)
        else
          (let before = pos;
               after = length ps - (pos + 1);
               between = int (length toks) - int before - int after
           in if between < 0 then (v, Some NotEnoughPositionalTokens)
              else
                (case populateEach L (\<lambda>i. (ps ! i)\<lparr>value' := toks ! i\<rparr>) PopulatePositional
                        [0..<before] v of
                   (v1, Some err) \<Rightarrow> (v1, Some err)
                 | (v1, None) \<Rightarrow>
                     (case populateEach L (\<lambda>i. (ps ! pos)\<lparr>value' := toks ! (pos + i)\<rparr>)
                             (\<lambda>i. PopulateSlice) [0..<nat between] v1 of
                        (v2, Some err) \<Rightarrow> (v2, Some err)
                      | (v2, None) \<Rightarrow>
                          (let src = length toks - after; dst = pos + 1
                           in populateEach L (\<lambda>i. (ps ! (dst + i))\<lparr>value' := toks ! (src + i)\<rparr>)
                                (\<lambda>i. PopulatePositional (dst + i)) [0..<after] v2)))))"

subsection \<open>The entry point\<close>

text \<open>
  \<^verbatim>\<open>populateFromSlice\<close> after \<^verbatim>\<open>unwrap\<close> and \<^verbatim>\<open>analyzeStruct\<close>: the option map and the
  positional fields are arguments, and so is the store.
\<close>

definition populateFromSlice ::
  "stdlib \<Rightarrow> options \<Rightarrow> fieldInfo list \<Rightarrow> string list \<Rightarrow> dest \<Rightarrow> bool \<Rightarrow> dest \<times> error option"
where
  "populateFromSlice L opts ps toks v isFused =
     (case (if \<not> isFused then populateDefaults L opts v else (v, None)) of
        (v0, Some err) \<Rightarrow> (v0, Some err)
      | (v0, None) \<Rightarrow>
          (case processTokens opts toks isFused of
             (retainedOpts, posTokens, Some err) \<Rightarrow> (v0, Some err)
           | (retainedOpts, posTokens, None) \<Rightarrow>
               (case populateOptions L retainedOpts v0 of
                  (v1, Some err) \<Rightarrow> (v1, Some err)
                | (v1, None) \<Rightarrow> populatePositionals L ps posTokens v1)))"

text \<open>
  A \<^verbatim>\<open>fieldInfo\<close> as \<^verbatim>\<open>makeFieldInfo\<close> leaves it, for a field with the given name, base
  type, sliceness and \<^verbatim>\<open>arg-default\<close> tag and with no other tag.
\<close>

definition mkField :: "string \<Rightarrow> baseType \<Rightarrow> bool \<Rightarrow> string \<Rightarrow> fieldInfo" where
  "mkField n t sl d =
     \<lparr>Name = n, flag = [], value' = [], help' = [], defaultval = d, format = [],
      isSlice = sl, baseType = t, allFlags = []\<rparr>"

text \<open>
  A standard library whose three parsers reject every input, for the examples that
  parse no float, time or duration.
\<close>

definition rejecting :: stdlib where
  "rejecting = \<lparr>float_of = (\<lambda>s. None), time_of = (\<lambda>layout s. None), duration_of = (\<lambda>s. None)\<rparr>"

subsection \<open>The distribution, in the words of the specification\<close>

text \<open>
  The assignments that section 4.5 of the specification prescribes for positional slots
  \<open>ps\<close> with a collector at index \<open>p\<close>: the first \<open>before\<close> tokens go to the slots
  \<open>0..p-1\<close> in order, the next \<open>middle\<close> tokens to the collector, the last \<open>after\<close>
  tokens to the slots \<open>p+1..\<close> in order. Each assignment is the slot with the token
  as its \<^verbatim>\<open>value\<close>. This definition is not taken from the code; the theorem on
  \<^const>\<open>populatePositionals\<close> compares the code with it.
\<close>

definition spec_distribution :: "fieldInfo list \<Rightarrow> nat \<Rightarrow> string list \<Rightarrow> fieldInfo list" where
  "spec_distribution ps p toks =
     (let before = p; after = length ps - p - 1; middle = length toks - before - after in
      map2 (\<lambda>f t. f\<lparr>value' := t\<rparr>) (take before ps) (take before toks)
      @ map (\<lambda>t. (ps ! p)\<lparr>value' := t\<rparr>) (take middle (drop before toks))
      @ map2 (\<lambda>f t. f\<lparr>value' := t\<rparr>) (drop (p + 1) ps) (drop (before + middle) toks))"

text \<open>
  Two results agree when they leave the same store and both succeed or both fail; the
  error itself may differ (the distributor relabels the error of the field).
\<close>

definition agree :: "dest \<times> error option \<Rightarrow> dest \<times> error option \<Rightarrow> bool" where
  "agree r r' \<longleftrightarrow> fst r = fst r' \<and> (snd r = None \<longleftrightarrow> snd r' = None)"

section \<open>Properties\<close>

subsection \<open>Cutting and chopping\<close>

lemma Cut_absent: "sep \<notin> set s \<Longrightarrow> Cut s sep = (s, [], False)"
  by (induction s) auto

lemma Cut_first: "sep \<notin> set k \<Longrightarrow> Cut (k @ sep # r) sep = (k, r, True)"
  by (induction k) auto

text \<open>
  C1. \<^const>\<open>chopToken\<close> is a function of its argument alone (a character being a
  byte of the Go string) and decides, in this order:
  a lone marker \<open>-\<close>, \<open>+\<close> or \<open>--\<close> is returned unchanged with an empty remainder; a
  token that starts with \<open>--\<close> is split at its first \<open>=\<close> (the key is the text before
  it, the remainder the text after it, and the whole token is the key when it has no
  \<open>=\<close>); any other token that starts with \<open>-\<close> or \<open>+\<close> is split after its second
  character; every other token is the key, with an empty remainder.
\<close>

theorem chopToken_rules:
  "(s = ''-'' \<or> s = ''+'' \<or> s = ''--'' \<longrightarrow> chopToken s = (s, []))
   \<and> (s = ''--'' @ n \<and> CHR ''='' \<notin> set n \<longrightarrow> chopToken s = (s, []))
   \<and> (s = ''--'' @ n @ ''='' @ r \<and> CHR ''='' \<notin> set n \<longrightarrow> chopToken s = (''--'' @ n, r))
   \<and> (s = c # x # r \<and> (c = CHR ''-'' \<or> c = CHR ''+'') \<and> \<not> (c = CHR ''-'' \<and> x = CHR ''-'')
        \<longrightarrow> chopToken s = ([c, x], r))
   \<and> ((\<forall>t. s \<noteq> CHR ''-'' # t) \<and> (\<forall>t. s \<noteq> CHR ''+'' # t) \<longrightarrow> chopToken s = (s, []))"
proof (intro conjI impI)
  assume "s = ''-'' \<or> s = ''+'' \<or> s = ''--''"
  then show "chopToken s = (s, [])"
    by (auto simp: chopToken_def)
next
  assume a: "s = ''--'' @ n \<and> CHR ''='' \<notin> set n"
  then have "CHR ''='' \<notin> set s" by auto
  then have "Cut s CHR ''='' = (s, [], False)" by (rule Cut_absent)
  with a show "chopToken s = (s, [])"
    by (auto simp: chopToken_def HasPrefix_def)
next
  assume a: "s = ''--'' @ n @ ''='' @ r \<and> CHR ''='' \<notin> set n"
  then have "CHR ''='' \<notin> set (''--'' @ n)" by auto
  then have "Cut ((''--'' @ n) @ CHR ''='' # r) CHR ''='' = (''--'' @ n, r, True)"
    by (rule Cut_first)
  with a show "chopToken s = (''--'' @ n, r)"
    by (auto simp: chopToken_def HasPrefix_def)
next
  assume "s = c # x # r \<and> (c = CHR ''-'' \<or> c = CHR ''+'') \<and> \<not> (c = CHR ''-'' \<and> x = CHR ''-'')"
  then show "chopToken s = ([c, x], r)"
    by (auto simp: chopToken_def HasPrefix_def)
next
  assume "(\<forall>t. s \<noteq> CHR ''-'' # t) \<and> (\<forall>t. s \<noteq> CHR ''+'' # t)"
  then show "chopToken s = (s, [])"
    by (cases s) (auto simp: chopToken_def HasPrefix_def)
qed

theorem chopToken_rules_witness:
  "chopToken ''--'' = (''--'', [])
   \<and> chopToken ''--name'' = (''--name'', [])
   \<and> chopToken ''--name=a=b'' = (''--name'', ''a=b'')
   \<and> chopToken ''+c-7'' = (''+c'', ''-7'')
   \<and> chopToken ''file'' = (''file'', [])"
  using chopToken_rules [where s = "''--''"]
    chopToken_rules [where s = "''--name''" and n = "''name''"]
    chopToken_rules [where s = "''--name=a=b''" and n = "''name''" and r = "''a=b''"]
    chopToken_rules [where s = "''+c-7''" and c = "CHR ''+''" and x = "CHR ''c''" and r = "''-7''"]
    chopToken_rules [where s = "''file''"]
  by simp

subsection \<open>One pass of the resolver\<close>

lemma loop_step:
  "tokens s \<noteq> [] \<or> token s \<noteq> [] \<Longrightarrow>
   loop opts isFused s =
     (case body opts isFused s of Return r \<Rightarrow> r | Continue s' \<Rightarrow> loop opts isFused s')"
  by (subst loop.simps) simp

lemma loop_done:
  "tokens s = [] \<Longrightarrow> token s = [] \<Longrightarrow> loop opts isFused s = (flags s, positionals s, None)"
  by (subst loop.simps) simp

lemma chopToken_short:
  "(p = CHR ''-'' \<or> p = CHR ''+'') \<Longrightarrow> \<not> (p = CHR ''-'' \<and> a = CHR ''-'') \<Longrightarrow>
   chopToken (p # a # rest) = ([p, a], rest)"
  by (auto simp: chopToken_def HasPrefix_def)

lemma body_unknown:
  assumes "map_of opts (fst (chopToken (token (refill s)))) = None"
  shows "body opts isFused s =
     (if isCompound (refill s)
      then Return ([], [], Some (UnexpectedInCompound (token (refill s))))
      else Continue ((refill s)\<lparr>positionals := positionals (refill s) @ [token (refill s)],
                               token := []\<rparr>))"
  using assms by (cases "chopToken (token (refill s))") (simp add: body_def Let_def)

lemma body_complete:
  assumes "chopToken (token (refill s)) = (key, rest)" and "map_of opts key = Some info"
    and "(baseType info = TBool) = (rest = [])"
  shows "body opts isFused s =
     Continue ((refill s)\<lparr>token := [],
        flags := flags (refill s) @ [info\<lparr>flag := key, value' := rest\<rparr>]\<rparr>)"
  using assms by (simp add: body_def Let_def)

lemma body_compound:
  assumes "chopToken (token (refill s)) = (key, rest)" and "map_of opts key = Some info"
    and "baseType info = TBool" and "rest \<noteq> []"
  shows "body opts isFused s =
     Continue ((refill s)\<lparr>token := CHR ''-'' # rest, isCompound := True,
        flags := flags (refill s) @ [info\<lparr>flag := key, value' := []\<rparr>]\<rparr>)"
  using assms by (simp add: body_def Let_def)

lemma body_incomplete:
  assumes "chopToken (token (refill s)) = (key, [])" and "map_of opts key = Some info"
    and "baseType info \<noteq> TBool"
  shows "body opts isFused s =
     (if isFused then
        Continue ((refill s)\<lparr>token := [],
          flags := flags (refill s) @ [info\<lparr>flag := key, value' := defaultval info\<rparr>]\<rparr>)
      else (case tokens (refill s) of
              t # ts \<Rightarrow> Continue ((refill s)\<lparr>token := [], tokens := ts,
                  flags := flags (refill s) @ [info\<lparr>flag := key, value' := t\<rparr>]\<rparr>)
            | [] \<Rightarrow> Return ([], [], Some (NotEnoughTokens key))))"
  using assms by (simp add: body_def Let_def)

text \<open>
  \<^verbatim>\<open>isCompound\<close> is dead while the pending token is empty: the next pass resets it, or
  the loop ends.
\<close>

lemma body_isCompound_irrelevant:
  "token s = [] \<Longrightarrow> tokens s \<noteq> [] \<Longrightarrow>
   body opts isFused (s\<lparr>isCompound := b\<rparr>) = body opts isFused s"
  by (cases "tokens s") (simp_all add: body_def refill_def)

lemma loop_isCompound_irrelevant:
  assumes "token s = []"
  shows "loop opts isFused (s\<lparr>isCompound := b\<rparr>) = loop opts isFused s"
proof (cases "tokens s = []")
  case True
  with assms show ?thesis by (simp add: loop_done)
next
  case False
  with assms show ?thesis
    by (simp add: loop_step body_isCompound_irrelevant)
qed

lemma loop_idle_eq:
  assumes "token x = []" and "token y = []" and "tokens x = tokens y"
    and "flags x = flags y" and "positionals x = positionals y"
  shows "loop opts isFused x = loop opts isFused (y :: pstate)"
proof -
  have "y = x\<lparr>isCompound := isCompound y\<rparr>"
    using assms by (intro pstate.equality) simp_all
  then have "loop opts isFused y = loop opts isFused (x\<lparr>isCompound := isCompound y\<rparr>)"
    by simp
  also have "\<dots> = loop opts isFused x"
    using assms(1) by (rule loop_isCompound_irrelevant)
  finally show ?thesis by simp
qed

text \<open>
  With a pending token whose key is a known flag, \<^verbatim>\<open>isCompound\<close> does not matter
  either: it is only read when the key is unknown.
\<close>

lemma loop_found_isCompound:
  assumes pend: "token s \<noteq> []"
    and found: "map_of opts (fst (chopToken (token s))) \<noteq> None"
  shows "loop opts isFused (s\<lparr>isCompound := b\<rparr>) = loop opts isFused s"
proof -
  obtain key rest where c: "chopToken (token s) = (key, rest)"
    by (cases "chopToken (token s)") auto
  with found obtain info where i: "map_of opts key = Some info" by auto
  let ?s' = "s\<lparr>isCompound := b\<rparr>"
  have r: "refill s = s" "refill ?s' = ?s'" using pend by (simp_all add: refill_def)
  have c': "chopToken (token (refill s)) = (key, rest)"
    "chopToken (token (refill ?s')) = (key, rest)"
    using c r by simp_all
  have st:
    "loop opts isFused ?s' =
       (case body opts isFused ?s' of Return r \<Rightarrow> r | Continue x \<Rightarrow> loop opts isFused x)"
    "loop opts isFused s =
       (case body opts isFused s of Return r \<Rightarrow> r | Continue x \<Rightarrow> loop opts isFused x)"
    using pend by (simp_all add: loop_step)
  consider (complete) "(baseType info = TBool) = (rest = [])"
    | (compound) "baseType info = TBool" "rest \<noteq> []"
    | (incomplete) "baseType info \<noteq> TBool" "rest = []"
    by blast
  then show ?thesis
  proof cases
    case complete
    show ?thesis
      unfolding st body_complete [OF c'(1) i complete] body_complete [OF c'(2) i complete] r
      by (simp, intro loop_idle_eq) simp_all
  next
    case compound
    show ?thesis
      unfolding st body_compound [OF c'(1) i compound] body_compound [OF c'(2) i compound] r
      by simp
  next
    case incomplete
    have c0: "chopToken (token (refill s)) = (key, [])"
      "chopToken (token (refill ?s')) = (key, [])"
      using c' incomplete by simp_all
    show ?thesis
    proof (cases isFused)
      case True
      show ?thesis
        unfolding st body_incomplete [OF c0(1) i incomplete(1)]
          body_incomplete [OF c0(2) i incomplete(1)] r
        using True by (simp, intro loop_idle_eq) simp_all
    next
      case False
      show ?thesis
      proof (cases "tokens s")
        case Nil
        show ?thesis
          unfolding st body_incomplete [OF c0(1) i incomplete(1)]
            body_incomplete [OF c0(2) i incomplete(1)] r
          using False Nil by simp
      next
        case (Cons t ts)
        show ?thesis
          unfolding st body_incomplete [OF c0(1) i incomplete(1)]
            body_incomplete [OF c0(2) i incomplete(1)] r
          using False Cons by (simp, intro loop_idle_eq) simp_all
      qed
    qed
  qed
qed

text \<open>
  A chain that is being peeled stops with an error at the first character whose \<open>-\<close>
  spelling is not a flag.
\<close>

lemma compound_chain_fails:
  assumes bs: "\<forall>b\<in>set bs. b \<noteq> CHR ''-''
      \<and> (\<exists>i. map_of opts [CHR ''-'', b] = Some i \<and> baseType i = TBool)"
    and x: "x \<noteq> CHR ''-''" "map_of opts [CHR ''-'', x] = None"
  shows "token s = CHR ''-'' # bs @ x # r \<Longrightarrow> isCompound s \<Longrightarrow>
         loop opts isFused s = ([], [], Some (UnexpectedInCompound (CHR ''-'' # x # r)))"
  using bs
proof (induction bs arbitrary: s)
  case Nil
  then have t: "token s = CHR ''-'' # x # r" by simp
  then have rf: "refill s = s" by (simp add: refill_def)
  have c: "chopToken (token (refill s)) = ([CHR ''-'', x], r)"
    using x(1) t rf by (simp add: chopToken_short)
  have "body opts isFused s = Return ([], [], Some (UnexpectedInCompound (CHR ''-'' # x # r)))"
    using body_unknown [of opts s isFused] c x(2) Nil.prems(2) rf t by simp
  then show ?case using t by (simp add: loop_step)
next
  case (Cons b bs)
  then have t: "token s = CHR ''-'' # b # (bs @ x # r)" by simp
  then have rf: "refill s = s" by (simp add: refill_def)
  from Cons.prems(3) obtain i
    where i: "map_of opts [CHR ''-'', b] = Some i" "baseType i = TBool"
      and b: "b \<noteq> CHR ''-''" by auto
  have c: "chopToken (token (refill s)) = ([CHR ''-'', b], bs @ x # r)"
    using b t rf by (simp add: chopToken_short)
  let ?s' = "s\<lparr>token := CHR ''-'' # bs @ x # r, isCompound := True,
        flags := flags s @ [i\<lparr>flag := [CHR ''-'', b], value' := []\<rparr>]\<rparr>"
  have "body opts isFused s = Continue ?s'"
    using body_compound [OF c i] rf by simp
  then have "loop opts isFused s = loop opts isFused ?s'"
    using t by (simp add: loop_step)
  also have "\<dots> = ([], [], Some (UnexpectedInCompound (CHR ''-'' # x # r)))"
    using Cons.prems(3) by (intro Cons.IH) simp_all
  finally show ?case .
qed

text \<open>The definitions that a run on concrete tokens unfolds.\<close>

lemmas resolver_eval =
  processTokens_def processTokens3_def endFlagsIndicator_def appendFrom.simps
  processMaybeFlags_def loop.simps body_def refill_def chopToken_def HasPrefix_def mkField_def

subsection \<open>Compound short flags\<close>

text \<open>
  C2, as the code has it. A token that starts with \<open>-\<close>, whose first flag is a known
  boolean flag and whose remainder is not empty, resolves exactly as the two tokens made
  of that first flag and of \<open>-\<close> followed by the remainder, provided the flag that the
  remainder starts with is known: same flag assignments in the same order, same
  positional tokens, same error. This covers every chain \<open>-abc...\<close> of boolean flags
  that ends in a non-boolean flag with its fused value, and \<open>-ab3\<close> against \<open>-a\<close>,
  \<open>-b3\<close>.
\<close>

theorem compound_split:
  assumes a: "a \<noteq> CHR ''-''"
    and first: "map_of opts [CHR ''-'', a] = Some info" "baseType info = TBool"
    and rest: "rest \<noteq> []"
    and nxt: "map_of opts (fst (chopToken (CHR ''-'' # rest))) \<noteq> None"
  shows "processMaybeFlags ((CHR ''-'' # a # rest) # post) opts isFused =
         processMaybeFlags ([CHR ''-'', a] # (CHR ''-'' # rest) # post) opts isFused"
proof -
  let ?k = "[CHR ''-'', a]"
  let ?f = "info\<lparr>flag := ?k, value' := []\<rparr>"
  let ?mid = "\<lparr>token = CHR ''-'' # rest, tokens = post, isCompound = True, flags = [?f],
               positionals = []\<rparr>"
  have c1: "chopToken (CHR ''-'' # a # rest) = (?k, rest)" and c2: "chopToken ?k = (?k, [])"
    using a by (simp_all add: chopToken_short)
  \<comment> \<open>the single token: the first flag is peeled and the remainder is pending\<close>
  let ?s = "\<lparr>token = [], tokens = (CHR ''-'' # a # rest) # post, isCompound = False,
             flags = [], positionals = []\<rparr>"
  have rs: "refill ?s = \<lparr>token = CHR ''-'' # a # rest, tokens = post, isCompound = False,
             flags = [], positionals = []\<rparr>"
    by (simp add: refill_def)
  have "body opts isFused ?s = Continue ?mid"
    using body_compound [of ?s ?k rest opts info isFused] c1 first rest rs by simp
  then have lhs: "processMaybeFlags ((CHR ''-'' # a # rest) # post) opts isFused
      = loop opts isFused ?mid"
    by (simp add: processMaybeFlags_def loop_step)
  \<comment> \<open>the two tokens: the first is complete, the second is popped from the queue\<close>
  let ?t = "\<lparr>token = [], tokens = ?k # (CHR ''-'' # rest) # post, isCompound = False,
             flags = [], positionals = []\<rparr>"
  let ?t1 = "\<lparr>token = [], tokens = (CHR ''-'' # rest) # post, isCompound = False,
             flags = [?f], positionals = []\<rparr>"
  have rt: "refill ?t = \<lparr>token = ?k, tokens = (CHR ''-'' # rest) # post,
             isCompound = False, flags = [], positionals = []\<rparr>"
    by (simp add: refill_def)
  have "body opts isFused ?t = Continue ?t1"
    using body_complete [of ?t ?k "[]" opts info isFused] c2 first rt by simp
  then have rhs: "processMaybeFlags (?k # (CHR ''-'' # rest) # post) opts isFused
      = loop opts isFused ?t1"
    by (simp add: processMaybeFlags_def loop_step)
  have rt1: "refill ?t1 = ?mid\<lparr>isCompound := False\<rparr>"
    by (simp add: refill_def)
  have b1: "body opts isFused ?t1 = body opts isFused (?mid\<lparr>isCompound := False\<rparr>)"
    by (simp add: body_def rt1 refill_def)
  have "loop opts isFused ?t1 = loop opts isFused (?mid\<lparr>isCompound := False\<rparr>)"
    by (simp add: loop_step b1)
  also have "\<dots> = loop opts isFused ?mid"
    using nxt by (intro loop_found_isCompound) simp_all
  finally show ?thesis using lhs rhs by simp
qed

text \<open>
  The chain \<open>-abc5\<close> with \<open>-a\<close>, \<open>-b\<close> boolean and \<open>-c\<close> an integer flag, and the
  chain \<open>-ab3\<close> of the claim, where \<open>-3\<close> is not a flag and both spellings fail alike.
\<close>

theorem compound_split_witness:
  "processMaybeFlags [''-abc5'', ''x'']
      [(''-a'', mkField ''A'' TBool False []), (''-b'', mkField ''B'' TBool False []),
       (''-c'', mkField ''C'' TInt False [])] False
   = processMaybeFlags [''-a'', ''-bc5'', ''x'']
      [(''-a'', mkField ''A'' TBool False []), (''-b'', mkField ''B'' TBool False []),
       (''-c'', mkField ''C'' TInt False [])] False
   \<and> processMaybeFlags [''-a'', ''-bc5'', ''x'']
      [(''-a'', mkField ''A'' TBool False []), (''-b'', mkField ''B'' TBool False []),
       (''-c'', mkField ''C'' TInt False [])] False
   = ([(mkField ''A'' TBool False [])\<lparr>flag := ''-a''\<rparr>,
       (mkField ''B'' TBool False [])\<lparr>flag := ''-b''\<rparr>,
       (mkField ''C'' TInt False [])\<lparr>flag := ''-c'', value' := ''5''\<rparr>], [''x''], None)
   \<and> processMaybeFlags [''-ab3'']
      [(''-a'', mkField ''A'' TBool False []), (''-b'', mkField ''B'' TBool False [])] True
   = processMaybeFlags [''-a'', ''-b3'']
      [(''-a'', mkField ''A'' TBool False []), (''-b'', mkField ''B'' TBool False [])] True
   \<and> processMaybeFlags [''-a'', ''-b3'']
      [(''-a'', mkField ''A'' TBool False []), (''-b'', mkField ''B'' TBool False [])] True
   = ([], [], Some (UnexpectedInCompound ''-3''))"
proof -
  let ?o3 = "[(''-a'', mkField ''A'' TBool False []), (''-b'', mkField ''B'' TBool False []),
       (''-c'', mkField ''C'' TInt False [])]"
  let ?o2 = "[(''-a'', mkField ''A'' TBool False []), (''-b'', mkField ''B'' TBool False [])]"
  have a: "CHR ''a'' \<noteq> CHR ''-''" by simp
  have b: "baseType (mkField ''A'' TBool False []) = TBool" by (simp add: mkField_def)
  have f3: "map_of ?o3 [CHR ''-'', CHR ''a''] = Some (mkField ''A'' TBool False [])" by simp
  have n3: "map_of ?o3 (fst (chopToken (CHR ''-'' # ''bc5''))) \<noteq> None"
    by (simp add: chopToken_def HasPrefix_def)
  have f2: "map_of ?o2 [CHR ''-'', CHR ''a''] = Some (mkField ''A'' TBool False [])" by simp
  have n2: "map_of ?o2 (fst (chopToken (CHR ''-'' # ''b3''))) \<noteq> None"
    by (simp add: chopToken_def HasPrefix_def)
  have "processMaybeFlags ((CHR ''-'' # CHR ''a'' # ''bc5'') # [''x'']) ?o3 False
      = processMaybeFlags ([CHR ''-'', CHR ''a''] # (CHR ''-'' # ''bc5'') # [''x'']) ?o3 False"
    by (rule compound_split [OF a f3 b _ n3]) simp
  moreover have "processMaybeFlags ((CHR ''-'' # CHR ''a'' # ''b3'') # []) ?o2 True
      = processMaybeFlags ([CHR ''-'', CHR ''a''] # (CHR ''-'' # ''b3'') # []) ?o2 True"
    by (rule compound_split [OF a f2 b _ n2]) simp
  moreover have "processMaybeFlags [''-a'', ''-bc5'', ''x''] ?o3 False
      = ([(mkField ''A'' TBool False [])\<lparr>flag := ''-a''\<rparr>,
          (mkField ''B'' TBool False [])\<lparr>flag := ''-b''\<rparr>,
          (mkField ''C'' TInt False [])\<lparr>flag := ''-c'', value' := ''5''\<rparr>], [''x''], None)"
    by (simp add: resolver_eval)
  moreover have "processMaybeFlags [''-a'', ''-b3''] ?o2 True
      = ([], [], Some (UnexpectedInCompound ''-3''))"
    by (simp add: resolver_eval)
  ultimately show ?thesis by simp
qed

text \<open>
  The claim fails for a chain written with \<open>+\<close>: with \<open>+a\<close> boolean and \<open>+c\<close> an
  integer flag, the token \<open>+ac5\<close> is an error, and the tokens \<open>+a\<close>, \<open>+c5\<close> are not.
\<close>

theorem compound_split_plus_counterexample:
  "processMaybeFlags [''+ac5'']
      [(''+a'', mkField ''A'' TBool False []), (''+c'', mkField ''C'' TInt False [])] False
     = ([], [], Some (UnexpectedInCompound ''-c5''))
   \<and> processMaybeFlags [''+a'', ''+c5'']
      [(''+a'', mkField ''A'' TBool False []), (''+c'', mkField ''C'' TInt False [])] False
     = ([(mkField ''A'' TBool False [])\<lparr>flag := ''+a''\<rparr>,
         (mkField ''C'' TInt False [])\<lparr>flag := ''+c'', value' := ''5''\<rparr>], [], None)
   \<and> processMaybeFlags [''+ac5'']
      [(''+a'', mkField ''A'' TBool False []), (''+c'', mkField ''C'' TInt False [])] False
     \<noteq> processMaybeFlags [''+a'', ''+c5'']
      [(''+a'', mkField ''A'' TBool False []), (''+c'', mkField ''C'' TInt False [])] False"
  by (simp add: resolver_eval)

text \<open>
  C10. A boolean flag that is peeled from a token with a non-empty remainder leaves the
  character \<open>-\<close> followed by that remainder as the pending token, whatever the token
  began with, and marks the chain as compound. So in a chain that begins with a
  \<open>+\<close>-prefixed boolean flag every following character is looked up under its \<open>-\<close>
  spelling, and the parse fails with the unknown-compound-flag error at the first
  character that is no flag under that spelling, also when it is one under \<open>+\<close>.
\<close>

theorem compound_resynthesis:
  "(chopToken (token (refill s)) = (key, rest) \<and> map_of opts key = Some info
      \<and> baseType info = TBool \<and> rest \<noteq> [] \<longrightarrow>
      body opts isFused s =
        Continue ((refill s)\<lparr>token := CHR ''-'' # rest, isCompound := True,
           flags := flags (refill s) @ [info\<lparr>flag := key, value' := []\<rparr>]\<rparr>))
   \<and> (map_of opts [CHR ''+'', a] = Some info \<and> baseType info = TBool
      \<and> (\<forall>b\<in>set bs. b \<noteq> CHR ''-''
            \<and> (\<exists>i. map_of opts [CHR ''-'', b] = Some i \<and> baseType i = TBool))
      \<and> x \<noteq> CHR ''-'' \<and> map_of opts [CHR ''-'', x] = None \<longrightarrow>
      processMaybeFlags ((CHR ''+'' # a # bs @ x # r) # post) opts isFused =
        ([], [], Some (UnexpectedInCompound (CHR ''-'' # x # r))))"
proof (intro conjI impI)
  assume "chopToken (token (refill s)) = (key, rest) \<and> map_of opts key = Some info
      \<and> baseType info = TBool \<and> rest \<noteq> []"
  then show "body opts isFused s =
        Continue ((refill s)\<lparr>token := CHR ''-'' # rest, isCompound := True,
           flags := flags (refill s) @ [info\<lparr>flag := key, value' := []\<rparr>]\<rparr>)"
    by (simp add: body_compound)
next
  assume a: "map_of opts [CHR ''+'', a] = Some info \<and> baseType info = TBool
      \<and> (\<forall>b\<in>set bs. b \<noteq> CHR ''-''
            \<and> (\<exists>i. map_of opts [CHR ''-'', b] = Some i \<and> baseType i = TBool))
      \<and> x \<noteq> CHR ''-'' \<and> map_of opts [CHR ''-'', x] = None"
  let ?s = "\<lparr>token = [], tokens = (CHR ''+'' # a # bs @ x # r) # post, isCompound = False,
             flags = [], positionals = []\<rparr>"
  let ?mid = "\<lparr>token = CHR ''-'' # bs @ x # r, tokens = post, isCompound = True,
               flags = [info\<lparr>flag := [CHR ''+'', a], value' := []\<rparr>], positionals = []\<rparr>"
  have rs: "refill ?s = \<lparr>token = CHR ''+'' # a # bs @ x # r, tokens = post,
             isCompound = False, flags = [], positionals = []\<rparr>"
    by (simp add: refill_def)
  have c: "chopToken (CHR ''+'' # a # bs @ x # r) = ([CHR ''+'', a], bs @ x # r)"
    by (simp add: chopToken_short)
  have "body opts isFused ?s = Continue ?mid"
    using body_compound [of ?s "[CHR ''+'', a]" "bs @ x # r" opts info isFused] a c rs by simp
  then have "processMaybeFlags ((CHR ''+'' # a # bs @ x # r) # post) opts isFused
      = loop opts isFused ?mid"
    by (simp add: processMaybeFlags_def loop_step)
  also have "\<dots> = ([], [], Some (UnexpectedInCompound (CHR ''-'' # x # r)))"
    using a by (intro compound_chain_fails) simp_all
  finally show "processMaybeFlags ((CHR ''+'' # a # bs @ x # r) # post) opts isFused =
        ([], [], Some (UnexpectedInCompound (CHR ''-'' # x # r)))" .
qed

text \<open>
  The token \<open>+ab\<close> with \<open>+a\<close> and \<open>+b\<close> boolean: after \<open>+a\<close> the pending token is
  \<open>-b\<close>, and \<open>-b\<close> is no flag. With \<open>-b\<close> boolean as well, \<open>+abc9\<close> fails at \<open>-c9\<close>
  although \<open>+c\<close> is a flag.
\<close>

theorem compound_resynthesis_witness:
  "body [(''+a'', mkField ''A'' TBool False []), (''+b'', mkField ''B'' TBool False [])] False
      \<lparr>token = [], tokens = [''+ab''], isCompound = False, flags = [], positionals = []\<rparr>
   = Continue \<lparr>token = ''-b'', tokens = [], isCompound = True,
       flags = [(mkField ''A'' TBool False [])\<lparr>flag := ''+a''\<rparr>], positionals = []\<rparr>
   \<and> processMaybeFlags [''+abc9'', ''y'']
       [(''+a'', mkField ''A'' TBool False []), (''-b'', mkField ''B'' TBool False []),
        (''+c'', mkField ''C'' TInt False [])] False
     = ([], [], Some (UnexpectedInCompound ''-c9''))"
  using compound_resynthesis [where s = "\<lparr>token = [], tokens = [''+ab''], isCompound = False,
        flags = [], positionals = []\<rparr>"
      and key = "''+a''" and rest = "''b''" and info = "mkField ''A'' TBool False []"
      and opts = "[(''+a'', mkField ''A'' TBool False []), (''+b'', mkField ''B'' TBool False [])]"
      and isFused = False and bs = "[]" and a = "CHR ''a''" and x = "CHR ''b''"]
    compound_resynthesis [where opts = "[(''+a'', mkField ''A'' TBool False []),
        (''-b'', mkField ''B'' TBool False []), (''+c'', mkField ''C'' TInt False [])]"
      and a = "CHR ''a''" and bs = "''b''" and x = "CHR ''c''" and r = "''9''"
      and post = "[''y'']" and isFused = False and info = "mkField ''A'' TBool False []"
      and s = "\<lparr>token = [], tokens = [], isCompound = False, flags = [], positionals = []\<rparr>"]
  by (simp add: refill_def chopToken_def HasPrefix_def mkField_def)

subsection \<open>Unknown keys\<close>

text \<open>
  C7, as the code has it. In a pass of the loop where the key of the current token is not
  in the option map: outside a compound chain the resolver appends the whole current
  token (key and remainder together, not the key alone) to the positionals, clears the
  pending token and goes on, without an error; inside a compound chain it returns the
  unknown-compound-flag error.
\<close>

theorem unknown_key:
  assumes "tokens s \<noteq> [] \<or> token s \<noteq> []"
    and "map_of opts (fst (chopToken (token (refill s)))) = None"
  shows "(\<not> isCompound (refill s) \<longrightarrow>
            body opts isFused s =
              Continue ((refill s)\<lparr>positionals := positionals (refill s) @ [token (refill s)],
                                  token := []\<rparr>))
       \<and> (isCompound (refill s) \<longrightarrow>
            body opts isFused s =
              Return ([], [], Some (UnexpectedInCompound (token (refill s)))))"
  using assms(2) by (simp add: body_unknown)

theorem unknown_key_witness:
  "body [] False
      \<lparr>token = [], tokens = [''--color=red'', ''f''], isCompound = True, flags = [],
       positionals = [''e'']\<rparr>
   = Continue \<lparr>token = [], tokens = [''f''], isCompound = False, flags = [],
       positionals = [''e'', ''--color=red'']\<rparr>
   \<and> body [] False
      \<lparr>token = ''-x'', tokens = [''f''], isCompound = True, flags = [], positionals = []\<rparr>
   = Return ([], [], Some (UnexpectedInCompound ''-x''))"
proof -
  let ?s = "\<lparr>token = [], tokens = [''--color=red'', ''f''], isCompound = True, flags = [],
       positionals = [''e'']\<rparr>"
  let ?t = "\<lparr>token = ''-x'', tokens = [''f''], isCompound = True, flags = [],
       positionals = []\<rparr>"
  have s1: "tokens ?s \<noteq> [] \<or> token ?s \<noteq> []" by simp
  have s2: "map_of [] (fst (chopToken (token (refill ?s)))) = (None :: fieldInfo option)" by simp
  have t1: "tokens ?t \<noteq> [] \<or> token ?t \<noteq> []" by simp
  have t2: "map_of [] (fst (chopToken (token (refill ?t)))) = (None :: fieldInfo option)" by simp
  have rs: "refill ?s = \<lparr>token = ''--color=red'', tokens = [''f''], isCompound = False,
      flags = [], positionals = [''e'']\<rparr>"
    by (simp add: refill_def)
  have rt: "refill ?t = ?t" by (simp add: refill_def)
  from unknown_key [OF s1 s2, of False] unknown_key [OF t1 t2, of False]
  show ?thesis unfolding rs rt by simp
qed

text \<open>
  The claim has the key emitted. For the token \<open>-x1\<close> the key is \<open>-x\<close>, and the
  positional that comes back is \<open>-x1\<close>.
\<close>

theorem unknown_key_counterexample:
  "fst (chopToken ''-x1'') = ''-x''
   \<and> processMaybeFlags [''-x1''] [] False = ([], [''-x1''], None)
   \<and> processMaybeFlags [''-x1''] [] False \<noteq> ([], [''-x''], None)"
  by (simp add: resolver_eval)

subsection \<open>The end-of-options marker\<close>

lemma appendFrom_drop: "appendFrom i toks acc = acc @ drop i toks"
proof (induction i toks acc rule: appendFrom.induct)
  case (1 i toks acc)
  show ?case
  proof (cases "i < length toks")
    case True
    with 1 show ?thesis
      by (subst appendFrom.simps) (simp add: Cons_nth_drop_Suc)
  next
    case False
    then show ?thesis by (subst appendFrom.simps) simp
  qed
qed

lemma endFlags_absent: "endFlagsIndicator \<notin> set toks \<Longrightarrow> endFlags toks = length toks"
  by (induction toks) auto

lemma endFlags_first:
  "endFlagsIndicator \<notin> set T \<Longrightarrow> endFlags (T @ endFlagsIndicator # R) = length T"
  by (induction T) auto

text \<open>
  C4. \<^const>\<open>processTokens\<close> splits the tokens at the first \<open>--\<close>: for tokens \<open>T\<close> without
  a marker followed by \<open>--\<close> and any tokens \<open>R\<close> (later markers and flag-shaped tokens
  among them), the resolver gets \<open>T\<close>, its flags and its error are returned as they
  are, and \<open>R\<close> is appended unchanged to its positionals; the marker itself is dropped.
  Without a marker the result is the resolver's on the whole list.
\<close>

theorem processTokens_split:
  "(''--'' \<notin> set T \<longrightarrow>
      processTokens opts (T @ [''--''] @ R) isFused =
        (case processMaybeFlags T opts isFused of (fs, ps, err) \<Rightarrow> (fs, ps @ R, err)))
   \<and> (''--'' \<notin> set toks \<longrightarrow>
      processTokens opts toks isFused = processMaybeFlags toks opts isFused)"
proof (intro conjI impI)
  assume a: "''--'' \<notin> set T"
  then have "endFlags (T @ endFlagsIndicator # R) = length T"
    by (intro endFlags_first) (simp add: endFlagsIndicator_def)
  then show "processTokens opts (T @ [''--''] @ R) isFused =
        (case processMaybeFlags T opts isFused of (fs, ps, err) \<Rightarrow> (fs, ps @ R, err))"
    by (simp add: processTokens_def processTokens3_def appendFrom_drop endFlagsIndicator_def)
next
  assume "''--'' \<notin> set toks"
  then have "endFlags toks = length toks"
    by (intro endFlags_absent) (simp add: endFlagsIndicator_def)
  then show "processTokens opts toks isFused = processMaybeFlags toks opts isFused"
    by (simp add: processTokens_def processTokens3_def appendFrom_drop split: prod.splits)
qed

theorem processTokens_split_witness:
  "processTokens [(''-b'', mkField ''B'' TBool False [])]
      ([''-b'', ''x''] @ [''--''] @ [''-b'', ''--'', ''y'']) False
   = ([(mkField ''B'' TBool False [])\<lparr>flag := ''-b''\<rparr>], [''x'', ''-b'', ''--'', ''y''], None)
   \<and> processTokens [(''-b'', mkField ''B'' TBool False [])] [''-b'', ''x''] False
   = ([(mkField ''B'' TBool False [])\<lparr>flag := ''-b''\<rparr>], [''x''], None)"
  using processTokens_split [of "[''-b'', ''x'']" "[(''-b'', mkField ''B'' TBool False [])]"
      "[''-b'', ''--'', ''y'']" False "[''-b'', ''x'']"]
  by (simp add: processMaybeFlags_def loop.simps body_def refill_def chopToken_def
      HasPrefix_def mkField_def)

subsection \<open>A flag without a fused value\<close>

text \<open>The definitions that an assignment on concrete values unfolds.\<close>

lemmas assign_eval =
  populateFromSlice_def populateDefaults_def populateField_def convertToType_def Atoi_def
  digit_def populatePositionals_def

text \<open>
  C3. With the one option \<open>+C\<close>, an integer with default \<open>7\<close>, the tokens \<open>[+C]\<close>
  fail in standard mode with the not-enough-tokens error and succeed in fused mode,
  where the field is set to the integer 7. In general, in a pass of the loop on a known
  non-boolean flag with an empty remainder: fused mode records the flag with the
  default string as its value; standard mode records it with the next token of the
  queue, which it removes, and returns the not-enough-tokens error when the queue is
  empty.
\<close>

theorem incomplete_flag:
  "populateFromSlice L [(''+C'', mkField ''C'' TInt False ''7'')] [] [''+C''] v False
     = (v(''C'' \<mapsto> Scalar (VInt 7)), Some (NotEnoughTokens ''+C''))
   \<and> populateFromSlice L [(''+C'', mkField ''C'' TInt False ''7'')] [] [''+C''] v True
     = (v(''C'' \<mapsto> Scalar (VInt 7)), None)
   \<and> (chopToken (token (refill s)) = (key, []) \<and> map_of opts key = Some info
        \<and> baseType info \<noteq> TBool \<longrightarrow>
        body opts True s =
          Continue ((refill s)\<lparr>token := [],
            flags := flags (refill s) @ [info\<lparr>flag := key, value' := defaultval info\<rparr>]\<rparr>)
        \<and> (\<forall>t ts. tokens (refill s) = t # ts \<longrightarrow>
              body opts False s =
                Continue ((refill s)\<lparr>token := [], tokens := ts,
                  flags := flags (refill s) @ [info\<lparr>flag := key, value' := t\<rparr>]\<rparr>))
        \<and> (tokens (refill s) = [] \<longrightarrow>
              body opts False s = Return ([], [], Some (NotEnoughTokens key))))"
proof (intro conjI impI allI)
  show "populateFromSlice L [(''+C'', mkField ''C'' TInt False ''7'')] [] [''+C''] v False
     = (v(''C'' \<mapsto> Scalar (VInt 7)), Some (NotEnoughTokens ''+C''))"
    by (simp add: resolver_eval assign_eval)
next
  show "populateFromSlice L [(''+C'', mkField ''C'' TInt False ''7'')] [] [''+C''] v True
     = (v(''C'' \<mapsto> Scalar (VInt 7)), None)"
    by (simp add: resolver_eval assign_eval)
next
  assume "chopToken (token (refill s)) = (key, []) \<and> map_of opts key = Some info
        \<and> baseType info \<noteq> TBool"
  then show "body opts True s =
          Continue ((refill s)\<lparr>token := [],
            flags := flags (refill s) @ [info\<lparr>flag := key, value' := defaultval info\<rparr>]\<rparr>)"
    by (simp add: body_incomplete)
next
  fix t ts
  assume "chopToken (token (refill s)) = (key, []) \<and> map_of opts key = Some info
        \<and> baseType info \<noteq> TBool" and "tokens (refill s) = t # ts"
  then show "body opts False s =
                Continue ((refill s)\<lparr>token := [], tokens := ts,
                  flags := flags (refill s) @ [info\<lparr>flag := key, value' := t\<rparr>]\<rparr>)"
    by (simp add: body_incomplete)
next
  assume "chopToken (token (refill s)) = (key, []) \<and> map_of opts key = Some info
        \<and> baseType info \<noteq> TBool" and "tokens (refill s) = []"
  then show "body opts False s = Return ([], [], Some (NotEnoughTokens key))"
    by (simp add: body_incomplete)
qed

text \<open>
  The long flag \<open>--name\<close>, a string with default \<open>unknown\<close>: in fused mode it takes the
  default and leaves \<open>bob\<close> in the queue, in standard mode it takes \<open>bob\<close>, and with an
  empty queue it fails. Then the example of the claim, on an empty store.
\<close>

theorem incomplete_flag_witness:
  "body [(''--name'', mkField ''Name'' TString False ''unknown'')] True
      \<lparr>token = [], tokens = [''--name'', ''bob''], isCompound = False, flags = [],
       positionals = []\<rparr>
   = Continue \<lparr>token = [], tokens = [''bob''], isCompound = False,
       flags = [(mkField ''Name'' TString False ''unknown'')
                  \<lparr>flag := ''--name'', value' := ''unknown''\<rparr>],
       positionals = []\<rparr>
   \<and> body [(''--name'', mkField ''Name'' TString False ''unknown'')] False
      \<lparr>token = [], tokens = [''--name'', ''bob''], isCompound = False, flags = [],
       positionals = []\<rparr>
   = Continue \<lparr>token = [], tokens = [], isCompound = False,
       flags = [(mkField ''Name'' TString False ''unknown'')
                  \<lparr>flag := ''--name'', value' := ''bob''\<rparr>],
       positionals = []\<rparr>
   \<and> body [(''--name'', mkField ''Name'' TString False ''unknown'')] False
      \<lparr>token = [], tokens = [''--name''], isCompound = False, flags = [], positionals = []\<rparr>
   = Return ([], [], Some (NotEnoughTokens ''--name''))
   \<and> populateFromSlice rejecting [(''+C'', mkField ''C'' TInt False ''7'')] [] [''+C'']
        Map.empty False
   = ([''C'' \<mapsto> Scalar (VInt 7)], Some (NotEnoughTokens ''+C''))
   \<and> populateFromSlice rejecting [(''+C'', mkField ''C'' TInt False ''7'')] [] [''+C'']
        Map.empty True
   = ([''C'' \<mapsto> Scalar (VInt 7)], None)"
  using incomplete_flag [where opts = "[(''--name'', mkField ''Name'' TString False ''unknown'')]"
      and s = "\<lparr>token = [], tokens = [''--name'', ''bob''], isCompound = False, flags = [],
               positionals = []\<rparr>"
      and key = "''--name''" and info = "mkField ''Name'' TString False ''unknown''"
      and L = rejecting and v = Map.empty]
    incomplete_flag [where opts = "[(''--name'', mkField ''Name'' TString False ''unknown'')]"
      and s = "\<lparr>token = [], tokens = [''--name''], isCompound = False, flags = [],
               positionals = []\<rparr>"
      and key = "''--name''" and info = "mkField ''Name'' TString False ''unknown''"
      and L = rejecting and v = Map.empty]
  by (simp add: refill_def chopToken_def HasPrefix_def mkField_def)

subsection \<open>Assignments in order\<close>

lemma populateOptions_append:
  "populateOptions L (xs @ ys) v =
     (case populateOptions L xs v of
        (v', Some err) \<Rightarrow> (v', Some err)
      | (v', None) \<Rightarrow> populateOptions L ys v')"
  by (induction xs arbitrary: v) (auto split: prod.splits option.splits)

lemma populateField_ok:
  "snd (populateField L info v) = None \<longleftrightarrow> (\<exists>x. convertToType L info = Inr x)"
  by (auto simp: populateField_def split: sum.splits)

lemma populateOptions_ok:
  "snd (populateOptions L infos v) = None \<longleftrightarrow> (\<forall>i\<in>set infos. \<exists>x. convertToType L i = Inr x)"
proof (induction infos arbitrary: v)
  case Nil
  show ?case by simp
next
  case (Cons i infos)
  show ?case
  proof (cases "populateField L i v")
    case (Pair v' e)
    then have e: "e = None \<longleftrightarrow> (\<exists>x. convertToType L i = Inr x)"
      using populateField_ok [of L i v] by simp
    show ?thesis
    proof (cases e)
      case None
      with Pair e Cons.IH [of v'] show ?thesis by simp
    next
      case (Some err)
      with Pair e show ?thesis by auto
    qed
  qed
qed

lemma populateEach_options:
  "fst (populateEach L infoAt errAt is v) = fst (populateOptions L (map infoAt is) v)
   \<and> (snd (populateEach L infoAt errAt is v) = None
        \<longleftrightarrow> snd (populateOptions L (map infoAt is) v) = None)
   \<and> (\<forall>err. snd (populateEach L infoAt errAt is v) = Some err \<longrightarrow> err \<in> errAt ` set is)"
proof (induction "is" arbitrary: v)
  case Nil
  show ?case by simp
next
  case (Cons i "is")
  show ?case
  proof (cases "populateField L (infoAt i) v")
    case (Pair v' e)
    show ?thesis
    proof (cases e)
      case None
      with Pair Cons.IH [of v'] show ?thesis by auto
    next
      case (Some err)
      with Pair show ?thesis by simp
    qed
  qed
qed

lemma findSlice_none:
  "\<forall>p\<in>set ps. \<not> isSlice p \<Longrightarrow> findSlice ps i acc = acc"
  by (induction ps i acc rule: findSlice.induct) auto

lemma findSlice_append:
  "findSlice (xs @ ys) i acc = findSlice ys (i + length xs) (findSlice xs i acc)"
  by (induction xs i acc rule: findSlice.induct) auto

lemma findSlice_one:
  assumes "p < length ps" and "isSlice (ps ! p)"
    and "\<forall>i<length ps. i \<noteq> p \<longrightarrow> \<not> isSlice (ps ! i)"
  shows "findSlice ps 0 (0, 0) = (p, 1)"
proof -
  have split: "ps = take p ps @ ps ! p # drop (Suc p) ps"
    using assms(1) by (simp add: id_take_nth_drop)
  have a: "\<forall>f\<in>set (take p ps). \<not> isSlice f"
    using assms(1,3) by (auto simp: in_set_conv_nth)
  have b: "\<forall>f\<in>set (drop (Suc p) ps). \<not> isSlice f"
    using assms(1,3) by (auto simp: in_set_conv_nth)
  have "findSlice ps 0 (0, 0)
      = findSlice (ps ! p # drop (Suc p) ps) (0 + length (take p ps)) (findSlice (take p ps) 0 (0, 0))"
    by (subst split, subst findSlice_append) simp
  also have "\<dots> = findSlice (ps ! p # drop (Suc p) ps) p (0, 0)"
    using a assms(1) by (simp add: findSlice_none)
  also have "\<dots> = (p, 1)"
    using b assms(2) by (simp add: findSlice_none)
  finally show ?thesis .
qed

lemma map_upt_zip:
  assumes "n \<le> length ps" and "n \<le> length toks"
  shows "map (\<lambda>i. (ps ! i)\<lparr>value' := toks ! i\<rparr>) [0..<n]
       = map2 (\<lambda>f t. f\<lparr>value' := t\<rparr>) (take n ps) (take n toks)"
  using assms by (intro nth_equalityI) simp_all

lemma map_upt_zip_shift:
  assumes "d + n \<le> length ps" and "s + n = length toks" and "d + n = length ps"
  shows "map (\<lambda>i. (ps ! (d + i))\<lparr>value' := toks ! (s + i)\<rparr>) [0..<n]
       = map2 (\<lambda>f t. f\<lparr>value' := t\<rparr>) (drop d ps) (drop s toks)"
  using assms by (intro nth_equalityI) auto

lemma map_upt_slice:
  assumes "p + m \<le> length toks"
  shows "map (\<lambda>i. c\<lparr>value' := toks ! (p + i)\<rparr>) [0..<m]
       = map (\<lambda>t. c\<lparr>value' := t\<rparr>) (take m (drop p toks))"
  using assms by (intro nth_equalityI) auto

lemma agree_bind:
  assumes "agree r r'" and "\<And>w. agree (k w) (k' w)"
  shows "agree (case r of (w, Some err) \<Rightarrow> (w, Some err) | (w, None) \<Rightarrow> k w)
               (case r' of (w, Some err) \<Rightarrow> (w, Some err) | (w, None) \<Rightarrow> k' w)"
  using assms by (cases r; cases r') (auto simp: agree_def split: option.splits)

lemma populateEach_agree:
  "agree (populateEach L infoAt errAt is v) (populateOptions L (map infoAt is) v)"
  using populateEach_options [of L infoAt errAt "is" v] by (simp add: agree_def)

lemma populateEach_error:
  "snd (populateEach L infoAt errAt is v) = Some err \<Longrightarrow> err \<in> errAt ` set is"
  using populateEach_options [of L infoAt errAt "is" v] by simp

text \<open>What a successful run of assignments leaves in the store.\<close>

lemma populateField_other:
  "populateField L info v = (v', e) \<Longrightarrow> n \<noteq> Name info \<Longrightarrow> v' n = v n"
  by (auto simp: populateField_def split: sum.splits if_splits)

lemma populateOptions_untouched:
  "populateOptions L infos v = (v', e) \<Longrightarrow> n \<notin> Name ` set infos \<Longrightarrow> v' n = v n"
proof (induction infos arbitrary: v)
  case Nil
  then show ?case by simp
next
  case (Cons i infos)
  obtain v1 e1 where f: "populateField L i v = (v1, e1)" by (cases "populateField L i v") auto
  with Cons.prems(2) have v1: "v1 n = v n" by (auto dest: populateField_other)
  show ?case
  proof (cases e1)
    case None
    with f Cons.prems(1) have "populateOptions L infos v1 = (v', e)" by simp
    with Cons.IH [of v1] Cons.prems(2) v1 show ?thesis by simp
  next
    case (Some err)
    with f Cons.prems(1) v1 show ?thesis by simp
  qed
qed

lemma populateField_scalar:
  "populateField L info v = (v', None) \<Longrightarrow> \<not> isSlice info \<Longrightarrow>
   \<exists>x. convertToType L info = Inr x \<and> v' (Name info) = Some (Scalar x)"
  by (auto simp: populateField_def split: sum.splits)

lemma populateOptions_scalar:
  assumes "populateOptions L infos v = (v', None)"
    and "\<forall>j\<in>set infos. Name j = n \<longrightarrow> \<not> isSlice j \<and> convertToType L j = c"
    and "\<exists>j\<in>set infos. Name j = n"
  shows "\<exists>x. c = Inr x \<and> v' n = Some (Scalar x)"
  using assms
proof (induction infos arbitrary: v)
  case Nil
  then show ?case by simp
next
  case (Cons i infos)
  obtain v1 e1 where f: "populateField L i v = (v1, e1)" by (cases "populateField L i v") auto
  with Cons.prems(1) have e1: "e1 = None" by (cases e1) auto
  with f Cons.prems(1) have rest: "populateOptions L infos v1 = (v', None)" by simp
  show ?case
  proof (cases "\<exists>j\<in>set infos. Name j = n")
    case True
    with Cons.IH [OF rest] Cons.prems(2) show ?thesis by simp
  next
    case False
    with Cons.prems(3) have i: "Name i = n" by auto
    from False have "n \<notin> Name ` set infos" by auto
    with rest have same: "v' n = v1 n" by (rule populateOptions_untouched)
    from i Cons.prems(2) have "\<not> isSlice i" "convertToType L i = c" by auto
    with f e1 i same show ?thesis by (auto dest: populateField_scalar)
  qed
qed

lemma populateField_slice:
  "populateField L info v = (v', None) \<Longrightarrow> isSlice info \<Longrightarrow>
   \<exists>x. convertToType L info = Inr x
      \<and> v' (Name info) = Some (Slice (elems (v (Name info)) @ [x]))"
  by (auto simp: populateField_def split: sum.splits)

lemma populateOptions_slice:
  assumes "populateOptions L infos v = (v', None)"
    and "\<forall>j\<in>set infos. Name j = n \<longrightarrow> isSlice j"
  shows "\<exists>xs. map (convertToType L) (filter (\<lambda>j. Name j = n) infos) = map Inr xs
      \<and> v' n = (if xs = [] then v n else Some (Slice (elems (v n) @ xs)))"
  using assms
proof (induction infos arbitrary: v)
  case Nil
  then show ?case by simp
next
  case (Cons i infos)
  obtain v1 e1 where f: "populateField L i v = (v1, e1)" by (cases "populateField L i v") auto
  with Cons.prems(1) have e1: "e1 = None" by (cases e1) auto
  with f Cons.prems(1) have rest: "populateOptions L infos v1 = (v', None)" by simp
  from Cons.prems(2) have sl: "\<forall>j\<in>set infos. Name j = n \<longrightarrow> isSlice j" by simp
  from Cons.IH [OF rest sl] obtain xs
    where xs: "map (convertToType L) (filter (\<lambda>j. Name j = n) infos) = map Inr xs"
      and v': "v' n = (if xs = [] then v1 n else Some (Slice (elems (v1 n) @ xs)))"
    by blast
  show ?case
  proof (cases "Name i = n")
    case False
    with f have "v1 n = v n" using populateField_other [of L i v v1 e1 n] by auto
    with xs v' False show ?thesis by auto
  next
    case True
    with Cons.prems(2) have "isSlice i" by simp
    with f e1 obtain x where x: "convertToType L i = Inr x"
      "v1 (Name i) = Some (Slice (elems (v (Name i)) @ [x]))"
      by (auto dest: populateField_slice)
    have "map (convertToType L) (filter (\<lambda>j. Name j = n) (i # infos)) = map Inr (x # xs)"
      using True x(1) xs by simp
    moreover have "v' n = Some (Slice (elems (v n) @ (x # xs)))"
      using v' x(2) True by (cases "xs = []") simp_all
    ultimately show ?thesis by (intro exI [of _ "x # xs"]) simp
  qed
qed

lemma distinct_Name_index:
  "distinct (map Name ps) \<Longrightarrow> i < length ps \<Longrightarrow> k < length ps \<Longrightarrow>
   Name (ps ! k) = Name (ps ! i) \<Longrightarrow> k = i"
  using nth_eq_iff_index_eq [of "map Name ps" k i] by simp

subsection \<open>The positional distributor\<close>

text \<open>
  C5. With exactly one collector among the positional slots, at index \<open>p\<close>, the
  distributor returns its not-enough-tokens error (the arity mismatch of this case)
  exactly when \<open>tokenCount - p - (slotCount - p - 1)\<close> is negative, and then writes
  nothing. Otherwise it performs, in order, the assignments of \<^const>\<open>spec_distribution\<close>:
  the first \<open>p\<close> tokens to the slots before the collector, the middle tokens to the
  collector, the last \<open>slotCount - p - 1\<close> tokens to the slots after it. It leaves
  the store those assignments leave and succeeds when they do (each assignment goes
  through the type converter, and the first that fails ends the run). After a
  successful run on fields with distinct names, the i-th slot before the collector holds
  the conversion of the i-th token, the j-th slot after it the conversion of the j-th of
  the last tokens, and the collector holds what it held before followed by the
  conversions of the middle tokens in their order (it is left alone when there is no
  middle token).
\<close>

theorem one_collector:
  assumes p: "p < length ps" and sl: "isSlice (ps ! p)"
    and others: "\<forall>i<length ps. i \<noteq> p \<longrightarrow> \<not> isSlice (ps ! i)"
  shows "(snd (populatePositionals L ps toks v) = Some NotEnoughPositionalTokens
           \<longleftrightarrow> int (length toks) - int p - (int (length ps) - int p - 1) < 0)
     \<and> (int (length toks) - int p - (int (length ps) - int p - 1) < 0 \<longrightarrow>
           populatePositionals L ps toks v = (v, Some NotEnoughPositionalTokens))
     \<and> (\<not> int (length toks) - int p - (int (length ps) - int p - 1) < 0 \<longrightarrow>
           fst (populatePositionals L ps toks v)
             = fst (populateOptions L (spec_distribution ps p toks) v)
           \<and> (snd (populatePositionals L ps toks v) = None
                \<longleftrightarrow> snd (populateOptions L (spec_distribution ps p toks) v) = None))
     \<and> (snd (populatePositionals L ps toks v) = None \<and> distinct (map Name ps) \<longrightarrow>
           (\<forall>i<p. \<exists>x. convertToType L ((ps ! i)\<lparr>value' := toks ! i\<rparr>) = Inr x
               \<and> fst (populatePositionals L ps toks v) (Name (ps ! i)) = Some (Scalar x))
         \<and> (\<exists>xs. map (\<lambda>t. convertToType L ((ps ! p)\<lparr>value' := t\<rparr>))
                     (take (length toks - p - (length ps - p - 1)) (drop p toks)) = map Inr xs
               \<and> fst (populatePositionals L ps toks v) (Name (ps ! p))
                   = (if xs = [] then v (Name (ps ! p))
                      else Some (Slice (elems (v (Name (ps ! p))) @ xs))))
         \<and> (\<forall>j<length ps - p - 1.
               \<exists>x. convertToType L ((ps ! (p + 1 + j))
                       \<lparr>value' := toks ! (length toks - (length ps - p - 1) + j)\<rparr>) = Inr x
               \<and> fst (populatePositionals L ps toks v) (Name (ps ! (p + 1 + j)))
                   = Some (Scalar x)))"
proof -
  define after where "after = length ps - (p + 1)"
  define between where "between = int (length toks) - int p - int after"
  have fs: "findSlice ps 0 (0, 0) = (p, 1)"
    using p sl others by (rule findSlice_one)
  have b: "between = int (length toks) - int p - (int (length ps) - int p - 1)"
    using p by (simp add: between_def after_def)
  have after': "length ps - p - 1 = after" by (simp add: after_def)
  show ?thesis
  proof (cases "between < 0")
    case True
    then have "populatePositionals L ps toks v = (v, Some NotEnoughPositionalTokens)"
      by (simp add: populatePositionals_def fs Let_def between_def after_def)
    with True b show ?thesis by simp
  next
    case False
    define m where "m = nat between"
    have len: "p + m + after = length toks"
      using False by (simp add: m_def between_def)
    have m': "length toks - p - after = m" using len by simp
    let ?f1 = "\<lambda>i. (ps ! i)\<lparr>value' := toks ! i\<rparr>"
    let ?f2 = "\<lambda>i. (ps ! p)\<lparr>value' := toks ! (p + i)\<rparr>"
    let ?f3 = "\<lambda>i. (ps ! (p + 1 + i))\<lparr>value' := toks ! (length toks - after + i)\<rparr>"
    let ?e3 = "\<lambda>i. PopulatePositional (p + 1 + i)"
    let ?run = "case populateEach L ?f1 PopulatePositional [0..<p] v of
        (v1, Some err) \<Rightarrow> (v1, Some err)
      | (v1, None) \<Rightarrow>
          (case populateEach L ?f2 (\<lambda>i. PopulateSlice) [0..<m] v1 of
             (v2, Some err) \<Rightarrow> (v2, Some err)
           | (v2, None) \<Rightarrow> populateEach L ?f3 ?e3 [0..<after] v2)"
    let ?A = "map ?f1 [0..<p]" and ?B = "map ?f2 [0..<m]" and ?C = "map ?f3 [0..<after]"
    let ?spec = "case populateOptions L ?A v of
        (v1, Some err) \<Rightarrow> (v1, Some err)
      | (v1, None) \<Rightarrow>
          (case populateOptions L ?B v1 of
             (v2, Some err) \<Rightarrow> (v2, Some err)
           | (v2, None) \<Rightarrow> populateOptions L ?C v2)"
    have nb: "(int (length toks) - int p - int (length ps - (p + 1)) < 0) = False"
      using False by (simp add: between_def after_def)
    have pp: "populatePositionals L ps toks v = ?run"
      unfolding m_def between_def after_def
      by (simp only: populatePositionals_def fs prod.case Let_def less_irrefl one_neq_zero
          if_False nb)
    have A: "?A = map2 (\<lambda>f t. f\<lparr>value' := t\<rparr>) (take p ps) (take p toks)"
      using p len by (intro map_upt_zip) simp_all
    have B: "?B = map (\<lambda>t. (ps ! p)\<lparr>value' := t\<rparr>) (take m (drop p toks))"
      using len by (intro map_upt_slice) simp
    have C: "?C = map2 (\<lambda>f t. f\<lparr>value' := t\<rparr>) (drop (p + 1) ps) (drop (p + m) toks)"
    proof -
      have "length toks - after = p + m" using len by simp
      moreover have "map (\<lambda>i. (ps ! (p + 1 + i))\<lparr>value' := toks ! (p + m + i)\<rparr>) [0..<after]
          = map2 (\<lambda>f t. f\<lparr>value' := t\<rparr>) (drop (p + 1) ps) (drop (p + m) toks)"
        using p len by (intro map_upt_zip_shift) (simp_all add: after_def)
      ultimately show ?thesis by simp
    qed
    have sd: "spec_distribution ps p toks = ?A @ ?B @ ?C"
    proof -
      have "length ps - p - 1 = after" by (simp add: after_def)
      moreover have "length toks - p - after = m" using len by simp
      ultimately show ?thesis
        unfolding A B C by (simp add: spec_distribution_def Let_def)
    qed
    have spec: "populateOptions L (spec_distribution ps p toks) v = ?spec"
      unfolding sd populateOptions_append by (simp split: prod.splits option.splits)
    have ag: "agree ?run ?spec"
      by (intro agree_bind populateEach_agree)
    have noarity: "snd ?run \<noteq> Some NotEnoughPositionalTokens"
    proof
      assume a: "snd ?run = Some NotEnoughPositionalTokens"
      obtain v1 e1 where r1: "populateEach L ?f1 PopulatePositional [0..<p] v = (v1, e1)"
        by (cases "populateEach L ?f1 PopulatePositional [0..<p] v") auto
      obtain v2 e2 where r2: "populateEach L ?f2 (\<lambda>i. PopulateSlice) [0..<m] v1 = (v2, e2)"
        by (cases "populateEach L ?f2 (\<lambda>i. PopulateSlice) [0..<m] v1") auto
      obtain v3 e3 where r3: "populateEach L ?f3 ?e3 [0..<after] v2 = (v3, e3)"
        by (cases "populateEach L ?f3 ?e3 [0..<after] v2") auto
      from a r1 r2 r3 have "e1 = Some NotEnoughPositionalTokens
          \<or> e2 = Some NotEnoughPositionalTokens \<or> e3 = Some NotEnoughPositionalTokens"
        by (auto split: option.splits)
      moreover have "e1 \<noteq> Some NotEnoughPositionalTokens"
        using populateEach_error [of L ?f1 PopulatePositional "[0..<p]" v] r1 by auto
      moreover have "e2 \<noteq> Some NotEnoughPositionalTokens"
        using populateEach_error [of L ?f2 "\<lambda>i. PopulateSlice" "[0..<m]" v1] r2 by auto
      moreover have "e3 \<noteq> Some NotEnoughPositionalTokens"
        using populateEach_error [of L ?f3 ?e3 "[0..<after]" v2] r3 by auto
      ultimately show False by simp
    qed
    have ag': "agree (populatePositionals L ps toks v)
        (populateOptions L (spec_distribution ps p toks) v)"
      unfolding pp spec by (rule ag)
    have na': "snd (populatePositionals L ps toks v) \<noteq> Some NotEnoughPositionalTokens"
      unfolding pp by (rule noarity)
    have nb': "\<not> int (length toks) - int p - (int (length ps) - int p - 1) < 0"
      using False b by simp
    \<comment> \<open>what the store holds after a successful run, for fields with distinct names\<close>
    let ?v' = "fst (populatePositionals L ps toks v)"
    let ?D = "?A @ ?B @ ?C"
    have store:
      "(\<forall>i<p. \<exists>x. convertToType L (?f1 i) = Inr x \<and> ?v' (Name (ps ! i)) = Some (Scalar x))
       \<and> (\<exists>xs. map (\<lambda>t. convertToType L ((ps ! p)\<lparr>value' := t\<rparr>)) (take m (drop p toks))
                  = map Inr xs
             \<and> ?v' (Name (ps ! p))
                 = (if xs = [] then v (Name (ps ! p))
                    else Some (Slice (elems (v (Name (ps ! p))) @ xs))))
       \<and> (\<forall>j<after. \<exists>x. convertToType L (?f3 j) = Inr x
             \<and> ?v' (Name (ps ! (p + 1 + j))) = Some (Scalar x))"
      if fin: "snd (populatePositionals L ps toks v) = None" and d: "distinct (map Name ps)"
    proof -
      have run: "populateOptions L ?D v = (?v', None)"
        using ag' fin unfolding sd by (simp add: agree_def prod_eq_iff)
      have mem: "\<And>j. j \<in> set ?D \<longleftrightarrow>
          (\<exists>k<p. j = ?f1 k) \<or> (\<exists>k<m. j = ?f2 k) \<or> (\<exists>k<after. j = ?f3 k)"
        by auto
      have in3: "\<And>k. k < after \<Longrightarrow> p + 1 + k < length ps"
        by (simp add: after_def)
      have idx: "\<And>a c. a < length ps \<Longrightarrow> c < length ps \<Longrightarrow>
          Name (ps ! a) = Name (ps ! c) \<Longrightarrow> a = c"
        using d by (rule distinct_Name_index)
      have first: "\<exists>x. convertToType L (?f1 i) = Inr x \<and> ?v' (Name (ps ! i)) = Some (Scalar x)"
        if i: "i < p" for i
      proof -
        have only: "\<forall>j\<in>set ?D. Name j = Name (ps ! i) \<longrightarrow>
            \<not> isSlice j \<and> convertToType L j = convertToType L (?f1 i)"
        proof (intro ballI impI)
          fix j assume j: "j \<in> set ?D" and n: "Name j = Name (ps ! i)"
          from j consider (a) k where "k < p" "j = ?f1 k" | (b) k where "k < m" "j = ?f2 k"
            | (c) k where "k < after" "j = ?f3 k"
            unfolding mem by blast
          then show "\<not> isSlice j \<and> convertToType L j = convertToType L (?f1 i)"
          proof cases
            case a
            with n i p have "k = i" by (intro idx) simp_all
            with a i p others show ?thesis by simp
          next
            case b
            with n i p have "p = i" by (intro idx) simp_all
            with i show ?thesis by simp
          next
            case c
            with n i p in3 [of k] have "p + 1 + k = i" by (intro idx) simp_all
            with i show ?thesis by simp
          qed
        qed
        have some: "\<exists>j\<in>set ?D. Name j = Name (ps ! i)"
          using i by (intro bexI [of _ "?f1 i"]) simp_all
        from populateOptions_scalar [OF run only some] show ?thesis .
      qed
      have last: "\<exists>x. convertToType L (?f3 q) = Inr x
          \<and> ?v' (Name (ps ! (p + 1 + q))) = Some (Scalar x)"
        if q: "q < after" for q
      proof -
        have only: "\<forall>j\<in>set ?D. Name j = Name (ps ! (p + 1 + q)) \<longrightarrow>
            \<not> isSlice j \<and> convertToType L j = convertToType L (?f3 q)"
        proof (intro ballI impI)
          fix j assume j: "j \<in> set ?D" and n: "Name j = Name (ps ! (p + 1 + q))"
          from j consider (a) k where "k < p" "j = ?f1 k" | (b) k where "k < m" "j = ?f2 k"
            | (c) k where "k < after" "j = ?f3 k"
            unfolding mem by blast
          then show "\<not> isSlice j \<and> convertToType L j = convertToType L (?f3 q)"
          proof cases
            case a
            with n p in3 [OF q] have "k = p + 1 + q" by (intro idx) simp_all
            with a show ?thesis by simp
          next
            case b
            with n p in3 [OF q] have "p = p + 1 + q" by (intro idx) simp_all
            then show ?thesis by simp
          next
            case c
            with n in3 [OF q] in3 [of k] have "p + 1 + k = p + 1 + q" by (intro idx) simp_all
            then have "k = q" by simp
            with c in3 [OF q] others show ?thesis by simp
          qed
        qed
        have some: "\<exists>j\<in>set ?D. Name j = Name (ps ! (p + 1 + q))"
          using q by (intro bexI [of _ "?f3 q"]) simp_all
        from populateOptions_scalar [OF run only some] show ?thesis .
      qed
      have notA: "\<forall>j\<in>set ?A. Name j \<noteq> Name (ps ! p)"
      proof
        fix j assume "j \<in> set ?A"
        then obtain k where k: "k < p" "j = ?f1 k" by auto
        show "Name j \<noteq> Name (ps ! p)"
        proof
          assume "Name j = Name (ps ! p)"
          with k p have "k = p" by (intro idx) simp_all
          with k show False by simp
        qed
      qed
      have notC: "\<forall>j\<in>set ?C. Name j \<noteq> Name (ps ! p)"
      proof
        fix j assume "j \<in> set ?C"
        then obtain k where k: "k < after" "j = ?f3 k" by auto
        show "Name j \<noteq> Name (ps ! p)"
        proof
          assume "Name j = Name (ps ! p)"
          with k p in3 [of k] have "p + 1 + k = p" by (intro idx) simp_all
          then show False by simp
        qed
      qed
      have allB: "\<forall>j\<in>set ?B. Name j = Name (ps ! p)" by simp
      have filt: "filter (\<lambda>j. Name j = Name (ps ! p)) ?D = ?B"
      proof -
        have "filter (\<lambda>j. Name j = Name (ps ! p)) ?A = []"
          using notA by (simp only: filter_empty_conv)
        moreover have "filter (\<lambda>j. Name j = Name (ps ! p)) ?C = []"
          using notC by (simp only: filter_empty_conv)
        moreover have "filter (\<lambda>j. Name j = Name (ps ! p)) ?B = ?B"
          using allB by (simp only: filter_id_conv)
        ultimately show ?thesis by (simp only: filter_append append_Nil append_Nil2)
      qed
      have slices: "\<forall>j\<in>set ?D. Name j = Name (ps ! p) \<longrightarrow> isSlice j"
      proof (intro ballI impI)
        fix j assume j: "j \<in> set ?D" and n: "Name j = Name (ps ! p)"
        with notA notC have "j \<in> set ?B" by auto
        with sl show "isSlice j" by auto
      qed
      from populateOptions_slice [OF run slices] obtain xs
        where xs: "map (convertToType L) (filter (\<lambda>j. Name j = Name (ps ! p)) ?D) = map Inr xs"
          and st: "?v' (Name (ps ! p))
            = (if xs = [] then v (Name (ps ! p))
               else Some (Slice (elems (v (Name (ps ! p))) @ xs)))"
        by blast
      have xs': "map (convertToType L) ?B = map Inr xs"
        using xs unfolding filt .
      have "map (\<lambda>t. convertToType L ((ps ! p)\<lparr>value' := t\<rparr>)) (take m (drop p toks))
          = map (convertToType L) (map (\<lambda>t. (ps ! p)\<lparr>value' := t\<rparr>) (take m (drop p toks)))"
        by (simp add: comp_def)
      also have "\<dots> = map (convertToType L) ?B"
        by (simp only: B)
      also have "\<dots> = map Inr xs"
        by (rule xs')
      finally have "map (\<lambda>t. convertToType L ((ps ! p)\<lparr>value' := t\<rparr>))
          (take m (drop p toks)) = map Inr xs" .
      with st first last show ?thesis by blast
    qed
    from nb' ag' na' store show ?thesis
      unfolding after' m' by (simp add: agree_def)
  qed
qed

text \<open>
  The example of the claim: slots \<open>A\<close>, a collector \<open>S\<close> and \<open>W\<close>, and the tokens
  \<open>-1 1 2 3 7\<close>.
\<close>

theorem one_collector_witness:
  "populatePositionals rejecting
      [mkField ''A'' TString False [], mkField ''S'' TString True [],
       mkField ''W'' TString False []]
      [''-1'', ''1'', ''2'', ''3'', ''7''] Map.empty
   = ([''A'' \<mapsto> Scalar (VString ''-1''),
       ''S'' \<mapsto> Slice [VString ''1'', VString ''2'', VString ''3''],
       ''W'' \<mapsto> Scalar (VString ''7'')], None)
   \<and> snd (populatePositionals rejecting
      [mkField ''A'' TString False [], mkField ''S'' TString True [],
       mkField ''W'' TString False []]
      [''-1''] Map.empty)
   = Some NotEnoughPositionalTokens"
proof -
  let ?ps = "[mkField ''A'' TString False [], mkField ''S'' TString True [],
       mkField ''W'' TString False []]"
  let ?toks = "[''-1'', ''1'', ''2'', ''3'', ''7'']"
  have h1: "(1::nat) < length ?ps" by simp
  have h2: "isSlice (?ps ! 1)" by (simp add: mkField_def)
  have h3: "\<forall>i<length ?ps. i \<noteq> 1 \<longrightarrow> \<not> isSlice (?ps ! i)"
    by (simp add: mkField_def less_Suc_eq)
  have enough: "\<not> int (length ?toks) - int 1 - (int (length ?ps) - int 1 - 1) < 0" by simp
  have short: "int (length [''-1'']) - int 1 - (int (length ?ps) - int 1 - 1) < 0" by simp
  have sd: "spec_distribution ?ps 1 ?toks
     = [(mkField ''A'' TString False [])\<lparr>value' := ''-1''\<rparr>,
        (mkField ''S'' TString True [])\<lparr>value' := ''1''\<rparr>,
        (mkField ''S'' TString True [])\<lparr>value' := ''2''\<rparr>,
        (mkField ''S'' TString True [])\<lparr>value' := ''3''\<rparr>,
        (mkField ''W'' TString False [])\<lparr>value' := ''7''\<rparr>]"
    by (simp add: spec_distribution_def)
  have run: "populateOptions rejecting (spec_distribution ?ps 1 ?toks) Map.empty
     = ([''A'' \<mapsto> Scalar (VString ''-1''),
         ''S'' \<mapsto> Slice [VString ''1'', VString ''2'', VString ''3''],
         ''W'' \<mapsto> Scalar (VString ''7'')], None)"
    unfolding sd by (simp add: populateField_def convertToType_def mkField_def)
  from one_collector [OF h1 h2 h3, of rejecting ?toks Map.empty] enough run
  have "populatePositionals rejecting ?ps ?toks Map.empty
     = ([''A'' \<mapsto> Scalar (VString ''-1''),
         ''S'' \<mapsto> Slice [VString ''1'', VString ''2'', VString ''3''],
         ''W'' \<mapsto> Scalar (VString ''7'')], None)"
    by (simp add: prod_eq_iff)
  moreover from one_collector [OF h1 h2 h3, of rejecting "[''-1'']" Map.empty] short
  have "snd (populatePositionals rejecting ?ps [''-1''] Map.empty)
     = Some NotEnoughPositionalTokens"
    by simp
  ultimately show ?thesis by simp
qed




subsection \<open>Defaults\<close>

lemma defaultOptions_filter:
  "defaultOptions opts = filter (\<lambda>info. \<not> isSlice info \<and> defaultval info \<noteq> []) (map snd opts)"
  by (induction opts rule: defaultOptions.induct) auto

lemma convertToType_default:
  "value' info = [] \<Longrightarrow> convertToType L info = convertToType L (info\<lparr>value' := defaultval info\<rparr>)"
  by (cases "baseType info"; cases "defaultval info = []")
    (simp_all add: convertToType_def Let_def)

text \<open>What an assignment leaves alone, and what the last assignment to a slot leaves.\<close>

lemma populateOptions_last:
  assumes run: "populateOptions L (xs @ j # ys) v = (v', None)"
    and sc: "\<not> isSlice j" and last: "Name j \<notin> Name ` set ys"
  shows "\<exists>x. convertToType L j = Inr x \<and> v' (Name j) = Some (Scalar x)"
proof -
  obtain v1 e1 where a: "populateOptions L xs v = (v1, e1)"
    by (cases "populateOptions L xs v") auto
  with run have e1: "e1 = None" by (cases e1) (auto simp: populateOptions_append)
  obtain v2 e2 where b: "populateField L j v1 = (v2, e2)"
    by (cases "populateField L j v1") auto
  with run a e1 have e2: "e2 = None" by (cases e2) (auto simp: populateOptions_append)
  with run a e1 b have c: "populateOptions L ys v2 = (v', None)"
    by (simp add: populateOptions_append)
  from b e2 sc obtain x where x: "convertToType L j = Inr x" "v2 (Name j) = Some (Scalar x)"
    by (auto dest: populateField_scalar)
  from c last have "v' (Name j) = v2 (Name j)" by (rule populateOptions_untouched)
  with x show ?thesis by simp
qed

lemma populateEach_untouched:
  assumes "populateEach L infoAt errAt is v = (v', e)" and "\<forall>i\<in>set is. Name (infoAt i) \<noteq> n"
  shows "v' n = v n"
proof -
  obtain w e' where r: "populateOptions L (map infoAt is) v = (w, e')"
    by (cases "populateOptions L (map infoAt is) v") auto
  from assms(2) have "n \<notin> Name ` set (map infoAt is)" by auto
  with r have "w n = v n" by (rule populateOptions_untouched)
  moreover have "v' = w"
    using populateEach_options [of L infoAt errAt "is" v] assms(1) r by simp
  ultimately show ?thesis by simp
qed

lemma findSlice_range:
  "findSlice ps i (pos, cnt) = (pos', cnt') \<Longrightarrow>
   cnt \<le> cnt' \<and> (cnt < cnt' \<longrightarrow> i \<le> pos' \<and> pos' < i + length ps) \<and> (cnt' = cnt \<longrightarrow> pos' = pos)"
proof (induction ps arbitrary: i pos cnt)
  case Nil
  then show ?case by simp
next
  case (Cons p ps)
  show ?case
  proof (cases "isSlice p")
    case True
    with Cons.prems have "findSlice ps (Suc i) (i, cnt + 1) = (pos', cnt')" by simp
    from Cons.IH [OF this] show ?thesis by auto
  next
    case False
    with Cons.prems have "findSlice ps (Suc i) (pos, cnt) = (pos', cnt')" by simp
    from Cons.IH [OF this] show ?thesis by auto
  qed
qed

lemma populatePositionals_untouched:
  assumes run: "populatePositionals L ps toks v = (v', e)" and n: "n \<notin> Name ` set ps"
  shows "v' n = v n"
proof -
  obtain pos cnt where fs: "findSlice ps 0 (0, 0) = (pos, cnt)"
    by (cases "findSlice ps 0 (0, 0)") auto
  have nm: "Name (ps ! i) \<noteq> n" if "i < length ps" for i
    using n that by (metis image_eqI nth_mem)
  have each: "w' n = w n"
    if "populateEach L infoAt errAt is w = (w', e')"
      and "\<forall>i\<in>set is. \<exists>k<length ps. Name (infoAt i) = Name (ps ! k)"
    for infoAt errAt "is" w w' e'
    using that(1)
  proof (rule populateEach_untouched)
    show "\<forall>i\<in>set is. Name (infoAt i) \<noteq> n" using that(2) nm by metis
  qed
  consider "cnt > 1" | "cnt = 0" | "cnt = 1" by linarith
  then show ?thesis
  proof cases
    case 1
    with run fs show ?thesis by (simp add: populatePositionals_def)
  next
    case 2
    show ?thesis
    proof (cases "length ps = length toks")
      case False
      with run fs 2 show ?thesis by (simp add: populatePositionals_def)
    next
      case True
      with run fs 2 have
        "populateEach L (\<lambda>i. (ps ! i)\<lparr>value' := toks ! i\<rparr>) PopulatePositional
           [0..<length toks] v = (v', e)"
        by (simp add: populatePositionals_def)
      then show ?thesis by (rule each) (use True in auto)
    qed
  next
    case 3
    from findSlice_range [OF fs] 3 have pos: "pos < length ps" by simp
    let ?after = "length ps - (pos + 1)"
    let ?between = "int (length toks) - int pos - int ?after"
    let ?A = "populateEach L (\<lambda>i. (ps ! i)\<lparr>value' := toks ! i\<rparr>) PopulatePositional
                [0..<pos] v"
    obtain v1 e1 where A: "?A = (v1, e1)" by (cases ?A) auto
    let ?B = "populateEach L (\<lambda>i. (ps ! pos)\<lparr>value' := toks ! (pos + i)\<rparr>)
                (\<lambda>i. PopulateSlice) [0..<nat ?between] v1"
    obtain v2 e2 where B: "?B = (v2, e2)" by (cases ?B) auto
    let ?C = "populateEach L (\<lambda>i. (ps ! (pos + 1 + i))\<lparr>value' := toks ! (length toks - ?after + i)\<rparr>)
                (\<lambda>i. PopulatePositional (pos + 1 + i)) [0..<?after] v2"
    obtain v3 e3 where C: "?C = (v3, e3)" by (cases ?C) auto
    have in_range: "\<exists>k<length ps. Name ((ps ! i)\<lparr>value' := t\<rparr>) = Name (ps ! k)"
      if "i < length ps" for i t
      using that by (intro exI [of _ i]) simp
    have u1: "v1 n = v n" using A
    proof (rule each)
      show "\<forall>i\<in>set [0..<pos]. \<exists>k<length ps.
          Name ((ps ! i)\<lparr>value' := toks ! i\<rparr>) = Name (ps ! k)"
      proof
        fix i assume "i \<in> set [0..<pos]"
        with pos have "i < length ps" by simp
        then show "\<exists>k<length ps. Name ((ps ! i)\<lparr>value' := toks ! i\<rparr>) = Name (ps ! k)"
          by (rule in_range)
      qed
    qed
    have u2: "v2 n = v1 n" using B
    proof (rule each)
      show "\<forall>i\<in>set [0..<nat ?between]. \<exists>k<length ps.
          Name ((ps ! pos)\<lparr>value' := toks ! (pos + i)\<rparr>) = Name (ps ! k)"
        using in_range [OF pos] by simp
    qed
    have u3: "v3 n = v2 n" using C
    proof (rule each)
      show "\<forall>i\<in>set [0..<?after]. \<exists>k<length ps.
          Name ((ps ! (pos + 1 + i))\<lparr>value' := toks ! (length toks - ?after + i)\<rparr>)
            = Name (ps ! k)"
      proof
        fix i assume "i \<in> set [0..<?after]"
        then have "pos + 1 + i < length ps" by auto
        then show "\<exists>k<length ps.
          Name ((ps ! (pos + 1 + i))\<lparr>value' := toks ! (length toks - ?after + i)\<rparr>)
            = Name (ps ! k)"
          by (rule in_range)
      qed
    qed
    have pp: "populatePositionals L ps toks v =
        (if ?between < 0 then (v, Some NotEnoughPositionalTokens)
         else case ?A of (v1, Some err) \<Rightarrow> (v1, Some err)
              | (v1, None) \<Rightarrow> (case populateEach L (\<lambda>i. (ps ! pos)\<lparr>value' := toks ! (pos + i)\<rparr>)
                (\<lambda>i. PopulateSlice) [0..<nat ?between] v1 of (v2, Some err) \<Rightarrow> (v2, Some err)
                  | (v2, None) \<Rightarrow> populateEach L (\<lambda>i. (ps ! (pos + 1 + i))\<lparr>value' := toks ! (length toks - ?after + i)\<rparr>)
                (\<lambda>i. PopulatePositional (pos + 1 + i)) [0..<?after] v2))"
      by (simp only: populatePositionals_def fs prod.case Let_def 3 less_irrefl one_neq_zero
          if_False)
    show ?thesis
    proof (cases "?between < 0")
      case True
      with run pp show ?thesis by simp
    next
      case False
      show ?thesis
      proof (cases e1)
        case (Some err)
        with run False A u1 show ?thesis unfolding pp by simp
      next
        case None
        note e1 = this
        show ?thesis
        proof (cases e2)
          case (Some err)
          with run False A B e1 u1 u2 show ?thesis unfolding pp by simp
        next
          case None
          with run False A B C e1 u1 u2 u3 show ?thesis unfolding pp by simp
        qed
      qed
    qed
  qed
qed


lemma assign_untouched:
  assumes run: "(case processTokens opts toks isFused of
             (retainedOpts, posTokens, Some err) \<Rightarrow> (w, Some err)
           | (retainedOpts, posTokens, None) \<Rightarrow>
               (case populateOptions L retainedOpts w of
                  (v1, Some err) \<Rightarrow> (v1, Some err)
                | (v1, None) \<Rightarrow> populatePositionals L ps posTokens v1)) = (v', e)"
    and res: "processTokens opts toks isFused = (fl, pos, pe)"
    and n1: "n \<notin> Name ` set fl" and n2: "n \<notin> Name ` set ps"
  shows "v' n = w n"
proof (cases pe)
  case (Some err)
  with run res show ?thesis by simp
next
  case None
  obtain v1 e1 where po: "populateOptions L fl w = (v1, e1)"
    by (cases "populateOptions L fl w") auto
  from po n1 have u: "v1 n = w n" by (rule populateOptions_untouched)
  show ?thesis
  proof (cases e1)
    case (Some err)
    with run res None po u show ?thesis by simp
  next
    case N: None
    with run res None po have "populatePositionals L ps pos v1 = (v', e)" by simp
    from this n2 have "v' n = v1 n" by (rule populatePositionals_untouched)
    with u show ?thesis by simp
  qed
qed

text \<open>
  C8, as the code has it. Let the option map be as \<^verbatim>\<open>analyzeStruct\<close> builds it: no entry
  has a \<^verbatim>\<open>value\<close> yet, and entries of the same field (its aliases) are the same
  \<^verbatim>\<open>fieldInfo\<close>. Write \<open>(v0, e0)\<close> for what \<^const>\<open>populateDefaults\<close> returns on the
  store \<open>v\<close>, \<open>fls\<close> and \<open>flf\<close> for the flags that the resolver retains in standard and
  in fused mode, and \<open>(vs, es)\<close> and \<open>(vf, ef)\<close> for what \<^const>\<open>populateFromSlice\<close>
  returns in standard and in fused mode. For every list of tokens and all positional
  slots:

  \<^item> \<^const>\<open>populateDefaults\<close> succeeds exactly when the default of every option that is
    not a collector and declares one converts; when it fails, the standard-mode parse
    returns its store and its error, whatever the tokens are;

  \<^item> when it succeeds, every option slot that is not a collector and declares a
    non-empty default holds in \<open>v0\<close> the conversion of that default, a boolean slot
    included, and every collector slot and every slot without a default is in \<open>v0\<close> as
    it was in \<open>v\<close>;

  \<^item> in standard mode the tokens are assigned on top of \<open>v0\<close>: a slot that no retained
    flag and no positional slot names holds in \<open>vs\<close> what it holds in \<open>v0\<close>, and after a
    successful parse a scalar slot holds the conversion of the last retained flag that
    names it;

  \<^item> in fused mode a slot that no retained flag and no positional slot names is in \<open>vf\<close>
    as it was in \<open>v\<close>.
\<close>

theorem defaults_prepopulated:
  assumes fresh: "\<forall>(k, i)\<in>set opts. value' i = []"
    and same: "\<forall>(k, i)\<in>set opts. \<forall>(k', j)\<in>set opts. Name i = Name j \<longrightarrow> i = j"
    and defs: "populateDefaults L opts v = (v0, e0)"
    and rs: "processTokens opts toks False = (fls, poss, pes)"
    and rf: "processTokens opts toks True = (flf, posf, pef)"
    and std: "populateFromSlice L opts ps toks v False = (vs, es)"
    and fus: "populateFromSlice L opts ps toks v True = (vf, ef)"
  shows "(e0 = None \<longleftrightarrow>
            (\<forall>(k, i)\<in>set opts. \<not> isSlice i \<and> defaultval i \<noteq> [] \<longrightarrow>
               (\<exists>x. convertToType L (i\<lparr>value' := defaultval i\<rparr>) = Inr x)))
       \<and> (e0 \<noteq> None \<longrightarrow> vs = v0 \<and> es = e0)
       \<and> (e0 = None \<longrightarrow>
            (\<forall>(k, i)\<in>set opts.
               (\<not> isSlice i \<and> defaultval i \<noteq> [] \<longrightarrow>
                  (\<exists>x. convertToType L (i\<lparr>value' := defaultval i\<rparr>) = Inr x
                       \<and> v0 (Name i) = Some (Scalar x)))
               \<and> (isSlice i \<or> defaultval i = [] \<longrightarrow> v0 (Name i) = v (Name i))))
       \<and> (e0 = None \<longrightarrow>
            (\<forall>n. n \<notin> Name ` set fls \<and> n \<notin> Name ` set ps \<longrightarrow> vs n = v0 n))
       \<and> (e0 = None \<and> es = None \<longrightarrow>
            (\<forall>xs j ys. fls = xs @ j # ys \<and> \<not> isSlice j \<and> Name j \<notin> Name ` set ys
                 \<and> Name j \<notin> Name ` set ps \<longrightarrow>
               (\<exists>x. convertToType L j = Inr x \<and> vs (Name j) = Some (Scalar x))))
       \<and> (\<forall>n. n \<notin> Name ` set flf \<and> n \<notin> Name ` set ps \<longrightarrow> vf n = v n)"
proof -
  let ?ds = "defaultOptions opts"
  have run0: "populateOptions L ?ds v = (v0, e0)"
    using defs by (simp add: populateDefaults_def)
  have ds: "\<And>j. j \<in> set ?ds \<longleftrightarrow>
      (\<exists>k'. (k', j) \<in> set opts) \<and> \<not> isSlice j \<and> defaultval j \<noteq> []"
    by (force simp: defaultOptions_filter)
  have conv: "convertToType L j = convertToType L (j\<lparr>value' := defaultval j\<rparr>)"
    if "(k', j) \<in> set opts" for k' j
  proof -
    from fresh that have "value' j = []" by blast
    then show ?thesis by (rule convertToType_default)
  qed
  have c1: "e0 = None \<longleftrightarrow>
            (\<forall>(k, i)\<in>set opts. \<not> isSlice i \<and> defaultval i \<noteq> [] \<longrightarrow>
               (\<exists>x. convertToType L (i\<lparr>value' := defaultval i\<rparr>) = Inr x))"
  proof -
    have "e0 = None \<longleftrightarrow> (\<forall>i\<in>set ?ds. \<exists>x. convertToType L i = Inr x)"
      using populateOptions_ok [of L ?ds v] run0 by simp
    also have "\<dots> \<longleftrightarrow> (\<forall>(k, i)\<in>set opts. \<not> isSlice i \<and> defaultval i \<noteq> [] \<longrightarrow>
               (\<exists>x. convertToType L (i\<lparr>value' := defaultval i\<rparr>) = Inr x))"
    proof
      assume l: "\<forall>i\<in>set ?ds. \<exists>x. convertToType L i = Inr x"
      show "\<forall>(k, i)\<in>set opts. \<not> isSlice i \<and> defaultval i \<noteq> [] \<longrightarrow>
               (\<exists>x. convertToType L (i\<lparr>value' := defaultval i\<rparr>) = Inr x)"
      proof (intro ballI, clarify)
        fix k i assume m: "(k, i) \<in> set opts" and "\<not> isSlice i" "defaultval i \<noteq> []"
        then have "i \<in> set ?ds" unfolding ds by blast
        with l obtain x where "convertToType L i = Inr x" by blast
        then show "\<exists>x. convertToType L (i\<lparr>value' := defaultval i\<rparr>) = Inr x"
          using conv [OF m] by simp
      qed
    next
      assume r: "\<forall>(k, i)\<in>set opts. \<not> isSlice i \<and> defaultval i \<noteq> [] \<longrightarrow>
               (\<exists>x. convertToType L (i\<lparr>value' := defaultval i\<rparr>) = Inr x)"
      show "\<forall>i\<in>set ?ds. \<exists>x. convertToType L i = Inr x"
      proof
        fix i assume "i \<in> set ?ds"
        then obtain k where m: "(k, i) \<in> set opts" and d: "\<not> isSlice i \<and> defaultval i \<noteq> []"
          unfolding ds by blast
        with r have "\<exists>x. convertToType L (i\<lparr>value' := defaultval i\<rparr>) = Inr x" by blast
        then show "\<exists>x. convertToType L i = Inr x" using conv [OF m] by simp
      qed
    qed
    finally show ?thesis .
  qed
  have c2: "vs = v0 \<and> es = e0" if "e0 \<noteq> None"
    using that defs std by (auto simp: populateFromSlice_def)
  have uniq: "\<And>j info k. (k, info) \<in> set opts \<Longrightarrow> j \<in> set ?ds \<Longrightarrow> Name j = Name info \<Longrightarrow> j = info"
  proof -
    fix j info k assume mem: "(k, info) \<in> set opts" and "j \<in> set ?ds" and n: "Name j = Name info"
    then obtain k' where "(k', j) \<in> set opts" unfolding ds by blast
    with same mem n show "j = info" by blast
  qed
  have c3a: "\<exists>x. convertToType L (info\<lparr>value' := defaultval info\<rparr>) = Inr x
                 \<and> v0 (Name info) = Some (Scalar x)"
    if ok: "e0 = None" and mem: "(k, info) \<in> set opts"
      and d: "\<not> isSlice info \<and> defaultval info \<noteq> []" for k info
  proof -
    from run0 ok have run: "populateOptions L ?ds v = (v0, None)" by simp
    from d mem have in_ds: "info \<in> set ?ds" unfolding ds by blast
    have "\<forall>j\<in>set ?ds. Name j = Name info \<longrightarrow>
        \<not> isSlice j \<and> convertToType L j = convertToType L info"
      using uniq [OF mem] d by blast
    moreover have "\<exists>j\<in>set ?ds. Name j = Name info" using in_ds by blast
    ultimately have "\<exists>x. convertToType L info = Inr x \<and> v0 (Name info) = Some (Scalar x)"
      using run by (rule populateOptions_scalar [rotated])
    then show ?thesis using conv [OF mem] by simp
  qed
  have c3b: "v0 (Name info) = v (Name info)"
    if mem: "(k, info) \<in> set opts" and nd: "isSlice info \<or> defaultval info = []" for k info
  proof -
    have "Name info \<notin> Name ` set ?ds"
    proof
      assume "Name info \<in> Name ` set ?ds"
      then obtain j where j: "j \<in> set ?ds" "Name j = Name info" by auto
      with uniq [OF mem] have "j = info" by blast
      with j(1) nd show False unfolding ds by blast
    qed
    with run0 show ?thesis by (rule populateOptions_untouched)
  qed
  have c3: "\<forall>(k, i)\<in>set opts.
               (\<not> isSlice i \<and> defaultval i \<noteq> [] \<longrightarrow>
                  (\<exists>x. convertToType L (i\<lparr>value' := defaultval i\<rparr>) = Inr x
                       \<and> v0 (Name i) = Some (Scalar x)))
               \<and> (isSlice i \<or> defaultval i = [] \<longrightarrow> v0 (Name i) = v (Name i))"
    if ok: "e0 = None"
  proof (intro ballI, clarify, intro conjI impI)
    fix k i assume "(k, i) \<in> set opts" "\<not> isSlice i \<and> defaultval i \<noteq> []"
    then show "\<exists>x. convertToType L (i\<lparr>value' := defaultval i\<rparr>) = Inr x
                       \<and> v0 (Name i) = Some (Scalar x)"
      using c3a [OF ok] by blast
  next
    fix k i assume "(k, i) \<in> set opts" "isSlice i \<or> defaultval i = []"
    then show "v0 (Name i) = v (Name i)" by (rule c3b)
  qed
  have c4: "vs n = v0 n"
    if ok: "e0 = None" and n: "n \<notin> Name ` set fls \<and> n \<notin> Name ` set ps" for n
  proof (rule assign_untouched [OF _ rs])
    show "(case processTokens opts toks False of
             (retainedOpts, posTokens, Some err) \<Rightarrow> (v0, Some err)
           | (retainedOpts, posTokens, None) \<Rightarrow>
               (case populateOptions L retainedOpts v0 of
                  (v1, Some err) \<Rightarrow> (v1, Some err)
                | (v1, None) \<Rightarrow> populatePositionals L ps posTokens v1)) = (vs, es)"
      using std defs ok by (simp add: populateFromSlice_def)
  qed (use n in simp_all)
  have c5: "\<exists>x. convertToType L j = Inr x \<and> vs (Name j) = Some (Scalar x)"
    if ok: "e0 = None" and fin: "es = None" and sp: "fls = xs @ j # ys" and sc: "\<not> isSlice j"
      and l1: "Name j \<notin> Name ` set ys" and l2: "Name j \<notin> Name ` set ps" for xs j ys
  proof -
    from std defs ok fin rs have pes: "pes = None"
      by (cases pes) (auto simp: populateFromSlice_def)
    obtain v1 e1 where po: "populateOptions L fls v0 = (v1, e1)"
      by (cases "populateOptions L fls v0") auto
    from std defs ok fin rs pes po have e1: "e1 = None"
      by (cases e1) (auto simp: populateFromSlice_def)
    from std defs ok fin rs pes po e1 have pp: "populatePositionals L ps poss v1 = (vs, None)"
      by (simp add: populateFromSlice_def)
    from po e1 sp have "populateOptions L (xs @ j # ys) v0 = (v1, None)" by simp
    from populateOptions_last [OF this sc l1] obtain x
      where x: "convertToType L j = Inr x" "v1 (Name j) = Some (Scalar x)" by blast
    from pp l2 have "vs (Name j) = v1 (Name j)" by (rule populatePositionals_untouched)
    with x show ?thesis by simp
  qed
  have c6: "vf n = v n" if n: "n \<notin> Name ` set flf \<and> n \<notin> Name ` set ps" for n
  proof (rule assign_untouched [OF _ rf])
    show "(case processTokens opts toks True of
             (retainedOpts, posTokens, Some err) \<Rightarrow> (v, Some err)
           | (retainedOpts, posTokens, None) \<Rightarrow>
               (case populateOptions L retainedOpts v of
                  (v1, Some err) \<Rightarrow> (v1, Some err)
                | (v1, None) \<Rightarrow> populatePositionals L ps posTokens v1)) = (vf, ef)"
      using fus by (simp add: populateFromSlice_def)
  qed (use n in simp_all)
  show ?thesis
  proof (intro conjI)
    show "e0 = None \<longleftrightarrow>
            (\<forall>(k, i)\<in>set opts. \<not> isSlice i \<and> defaultval i \<noteq> [] \<longrightarrow>
               (\<exists>x. convertToType L (i\<lparr>value' := defaultval i\<rparr>) = Inr x))"
      by (rule c1)
    show "e0 \<noteq> None \<longrightarrow> vs = v0 \<and> es = e0" using c2 by blast
    show "e0 = None \<longrightarrow>
            (\<forall>(k, i)\<in>set opts.
               (\<not> isSlice i \<and> defaultval i \<noteq> [] \<longrightarrow>
                  (\<exists>x. convertToType L (i\<lparr>value' := defaultval i\<rparr>) = Inr x
                       \<and> v0 (Name i) = Some (Scalar x)))
               \<and> (isSlice i \<or> defaultval i = [] \<longrightarrow> v0 (Name i) = v (Name i)))"
      using c3 by blast
    show "e0 = None \<longrightarrow>
            (\<forall>n. n \<notin> Name ` set fls \<and> n \<notin> Name ` set ps \<longrightarrow> vs n = v0 n)"
      using c4 by blast
    show "e0 = None \<and> es = None \<longrightarrow>
            (\<forall>xs j ys. fls = xs @ j # ys \<and> \<not> isSlice j \<and> Name j \<notin> Name ` set ys
                 \<and> Name j \<notin> Name ` set ps \<longrightarrow>
               (\<exists>x. convertToType L j = Inr x \<and> vs (Name j) = Some (Scalar x)))"
      using c5 by blast
    show "\<forall>n. n \<notin> Name ` set flf \<and> n \<notin> Name ` set ps \<longrightarrow> vf n = v n"
      using c6 by blast
  qed
qed

text \<open>
  An integer field \<open>C\<close> with the aliases \<open>-c\<close> and \<open>--counter\<close> and default \<open>7\<close>, a
  string field \<open>N\<close> with default \<open>x\<close>, a boolean field \<open>B\<close> with default \<open>true\<close>, a
  collector \<open>V\<close> with default \<open>3\<close> and a positional string field \<open>P\<close>, on the tokens
  \<open>-c5 file\<close>. Standard mode leaves the defaults in \<open>N\<close> and \<open>B\<close>, nothing in \<open>V\<close>,
  and 5 in \<open>C\<close>; fused mode leaves \<open>N\<close> and \<open>B\<close> unwritten. With an integer option whose
  default is \<open>x\<close>, the standard-mode parse of \<open>-i 1\<close> fails on the default.
\<close>

theorem defaults_prepopulated_witness:
  "(\<exists>vs vf.
      populateFromSlice rejecting
        [(''-c'', mkField ''C'' TInt False ''7''), (''--counter'', mkField ''C'' TInt False ''7''),
         (''-n'', mkField ''N'' TString False ''x''), (''-b'', mkField ''B'' TBool False ''true''),
         (''-v'', mkField ''V'' TInt True ''3'')]
        [mkField ''P'' TString False []] [''-c5'', ''file''] Map.empty False = (vs, None)
      \<and> vs ''N'' = Some (Scalar (VString ''x''))
      \<and> vs ''B'' = Some (Scalar (VBool True))
      \<and> vs ''V'' = None
      \<and> vs ''C'' = Some (Scalar (VInt 5))
      \<and> populateFromSlice rejecting
        [(''-c'', mkField ''C'' TInt False ''7''), (''--counter'', mkField ''C'' TInt False ''7''),
         (''-n'', mkField ''N'' TString False ''x''), (''-b'', mkField ''B'' TBool False ''true''),
         (''-v'', mkField ''V'' TInt True ''3'')]
        [mkField ''P'' TString False []] [''-c5'', ''file''] Map.empty True = (vf, None)
      \<and> vf ''N'' = None
      \<and> vf ''B'' = None)
   \<and> populateFromSlice rejecting [(''-i'', mkField ''I'' TInt False ''x'')] []
        [''-i'', ''1''] Map.empty False
      = (Map.empty, Some (ConversionError ''x''))"
proof -
  let ?opts = "[(''-c'', mkField ''C'' TInt False ''7''),
         (''--counter'', mkField ''C'' TInt False ''7''),
         (''-n'', mkField ''N'' TString False ''x''), (''-b'', mkField ''B'' TBool False ''true''),
         (''-v'', mkField ''V'' TInt True ''3'')]"
  let ?ps = "[mkField ''P'' TString False []]"
  let ?toks = "[''-c5'', ''file'']"
  let ?c = "(mkField ''C'' TInt False ''7'')\<lparr>flag := ''-c'', value' := ''5''\<rparr>"
  let ?v0 = "[''C'' \<mapsto> Scalar (VInt 7), ''N'' \<mapsto> Scalar (VString ''x''),
              ''B'' \<mapsto> Scalar (VBool True)]"
  define vs where "vs = fst (populateFromSlice rejecting ?opts ?ps ?toks Map.empty False)"
  define vf where "vf = fst (populateFromSlice rejecting ?opts ?ps ?toks Map.empty True)"
  have fresh: "\<forall>(k, i)\<in>set ?opts. value' i = []" by (simp add: mkField_def)
  have same: "\<forall>(k, i)\<in>set ?opts. \<forall>(k', j)\<in>set ?opts. Name i = Name j \<longrightarrow> i = j"
    by (simp add: mkField_def)
  have defs: "populateDefaults rejecting ?opts Map.empty = (?v0, None)"
    by (simp add: populateDefaults_def populateField_def convertToType_def mkField_def
        Atoi_def digit_def)
  have rs: "processTokens ?opts ?toks False = ([?c], [''file''], None)"
    by (simp add: resolver_eval)
  have rf: "processTokens ?opts ?toks True = ([?c], [''file''], None)"
    by (simp add: resolver_eval)
  have "snd (populateFromSlice rejecting ?opts ?ps ?toks Map.empty False) = None"
    using rs by (simp add: assign_eval mkField_def upt_rec)
  then have std: "populateFromSlice rejecting ?opts ?ps ?toks Map.empty False = (vs, None)"
    by (simp add: vs_def prod_eq_iff)
  have "snd (populateFromSlice rejecting ?opts ?ps ?toks Map.empty True) = None"
    using rf by (simp add: assign_eval mkField_def upt_rec)
  then have fus: "populateFromSlice rejecting ?opts ?ps ?toks Map.empty True = (vf, None)"
    by (simp add: vf_def prod_eq_iff)
  note T = defaults_prepopulated [OF fresh same defs rs rf std fus]
  have kept: "\<forall>n. n \<notin> Name ` set [?c] \<and> n \<notin> Name ` set ?ps \<longrightarrow> vs n = ?v0 n"
    using T [THEN conjunct2, THEN conjunct2, THEN conjunct2, THEN conjunct1] by simp
  have n: "vs ''N'' = Some (Scalar (VString ''x''))"
    using kept [THEN spec, of "''N''"] by (simp add: mkField_def)
  have b: "vs ''B'' = Some (Scalar (VBool True))"
    using kept [THEN spec, of "''B''"] by (simp add: mkField_def)
  have v: "vs ''V'' = None"
    using kept [THEN spec, of "''V''"] by (simp add: mkField_def)
  have over: "\<forall>xs j ys. [?c] = xs @ j # ys \<and> \<not> isSlice j \<and> Name j \<notin> Name ` set ys
                 \<and> Name j \<notin> Name ` set ?ps \<longrightarrow>
               (\<exists>x. convertToType rejecting j = Inr x \<and> vs (Name j) = Some (Scalar x))"
    using T [THEN conjunct2, THEN conjunct2, THEN conjunct2, THEN conjunct2, THEN conjunct1]
    by simp
  have c: "vs ''C'' = Some (Scalar (VInt 5))"
    using over [THEN spec, of "[]", THEN spec, of ?c, THEN spec, of "[]"]
    by (simp add: mkField_def convertToType_def Atoi_def digit_def)
  have plain: "\<forall>n. n \<notin> Name ` set [?c] \<and> n \<notin> Name ` set ?ps \<longrightarrow> vf n = Map.empty n"
    using T [THEN conjunct2, THEN conjunct2, THEN conjunct2, THEN conjunct2, THEN conjunct2]
    by simp
  have fn: "vf ''N'' = None"
    using plain [THEN spec, of "''N''"] by (simp add: mkField_def)
  have fb: "vf ''B'' = None"
    using plain [THEN spec, of "''B''"] by (simp add: mkField_def)
  let ?bad = "[(''-i'', mkField ''I'' TInt False ''x'')]"
  let ?r = "populateFromSlice rejecting ?bad [] [''-i'', ''1''] Map.empty False"
  let ?q = "populateFromSlice rejecting ?bad [] [''-i'', ''1''] Map.empty True"
  have fresh': "\<forall>(k, i)\<in>set ?bad. value' i = []" by (simp add: mkField_def)
  have same': "\<forall>(k, i)\<in>set ?bad. \<forall>(k', j)\<in>set ?bad. Name i = Name j \<longrightarrow> i = j"
    by simp
  have defs': "populateDefaults rejecting ?bad Map.empty
      = (Map.empty, Some (ConversionError ''x''))"
    by (simp add: populateDefaults_def populateField_def convertToType_def mkField_def
        Atoi_def digit_def)
  have rs': "processTokens ?bad [''-i'', ''1''] False
      = (fst (processTokens ?bad [''-i'', ''1''] False),
         fst (snd (processTokens ?bad [''-i'', ''1''] False)),
         snd (snd (processTokens ?bad [''-i'', ''1''] False)))"
    by simp
  have rf': "processTokens ?bad [''-i'', ''1''] True
      = (fst (processTokens ?bad [''-i'', ''1''] True),
         fst (snd (processTokens ?bad [''-i'', ''1''] True)),
         snd (snd (processTokens ?bad [''-i'', ''1''] True)))"
    by simp
  have std': "?r = (fst ?r, snd ?r)" by simp
  have fus': "?q = (fst ?q, snd ?q)" by simp
  have "fst ?r = Map.empty \<and> snd ?r = Some (ConversionError ''x'')"
    using defaults_prepopulated [OF fresh' same' defs' rs' rf' std' fus',
        THEN conjunct2, THEN conjunct1]
    by simp
  then have bad: "?r = (Map.empty, Some (ConversionError ''x''))"
    by (simp add: prod_eq_iff)
  from std n b v c fus fn fb bad show ?thesis by blast
qed

text \<open>
  The claim has boolean slots left alone, and every other scalar option slot with a
  default pre-populated. A boolean option \<open>-b\<close> with the default \<open>true\<close> is written
  before any token is read, in \<^const>\<open>populateDefaults\<close> and so in a standard-mode parse
  of no tokens; without the default it is not. An integer option with the default \<open>x\<close>
  is not written: the default does not convert, and the parse fails.
\<close>

theorem defaults_boolean_counterexample:
  "populateDefaults rejecting [(''-b'', mkField ''B'' TBool False ''true'')] Map.empty
     = ([''B'' \<mapsto> Scalar (VBool True)], None)
   \<and> populateFromSlice rejecting [(''-b'', mkField ''B'' TBool False ''true'')] [] []
        Map.empty False
     = ([''B'' \<mapsto> Scalar (VBool True)], None)
   \<and> populateFromSlice rejecting [(''-b'', mkField ''B'' TBool False [])] [] []
        Map.empty False
     = (Map.empty, None)
   \<and> populateFromSlice rejecting [(''-i'', mkField ''I'' TInt False ''x'')] [] []
        Map.empty False
     = (Map.empty, Some (ConversionError ''x''))"
  by (simp add: assign_eval resolver_eval)

subsection \<open>The type converter\<close>

lemma Atoi_empty: "Atoi [] = None"
  by (simp add: Atoi_def)

text \<open>
  C9, as the code has it. For every kind, an empty raw value is replaced by the default
  string, and a non-empty raw value makes the default irrelevant. Writing \<open>e\<close> for the
  effective input, the converter fails exactly when the kind is an integer, float, time
  or duration and the parser of that kind rejects \<open>e\<close> (or the type is none of the six),
  and the error then carries \<open>e\<close>; when the parser accepts \<open>e\<close>, the result is the
  value it returns. An input that is empty with no default is such a failure for an
  integer, a float, a duration, and a time read with the default layout. A boolean
  always converts to \<open>true\<close> and a string to \<open>e\<close> itself, so these two kinds never
  fail, not even on an empty input without default.
\<close>

theorem convertToType_rules:
  "(value' info = [] \<longrightarrow>
      convertToType L info = convertToType L (info\<lparr>value' := defaultval info\<rparr>))
   \<and> (value' info \<noteq> [] \<longrightarrow>
      convertToType L info = convertToType L (info\<lparr>defaultval := d\<rparr>))
   \<and> ((\<exists>err. convertToType L info = Inl err) \<longleftrightarrow>
        (baseType info = TInt
           \<and> Atoi (if value' info = [] then defaultval info else value' info) = None)
        \<or> (baseType info = TFloat
           \<and> ParseFloat L (if value' info = [] then defaultval info else value' info) = None)
        \<or> (baseType info = TTime
           \<and> Parse L (if format info \<noteq> [] then format info else defaultTimeFormat)
                (if value' info = [] then defaultval info else value' info) = None)
        \<or> (baseType info = TDuration
           \<and> ParseDuration L (if value' info = [] then defaultval info else value' info) = None)
        \<or> baseType info = TOther)
   \<and> (baseType info \<noteq> TOther \<longrightarrow> (\<forall>err. convertToType L info = Inl err \<longrightarrow>
        err = ConversionError (if value' info = [] then defaultval info else value' info)))
   \<and> (baseType info = TBool \<longrightarrow> convertToType L info = Inr (VBool True))
   \<and> (baseType info = TString \<longrightarrow>
        convertToType L info
          = Inr (VString (if value' info = [] then defaultval info else value' info)))
   \<and> (\<forall>i. baseType info = TInt
          \<and> Atoi (if value' info = [] then defaultval info else value' info) = Some i \<longrightarrow>
        convertToType L info = Inr (VInt i))
   \<and> (\<forall>f. baseType info = TFloat
          \<and> ParseFloat L (if value' info = [] then defaultval info else value' info) = Some f \<longrightarrow>
        convertToType L info = Inr (VFloat f))
   \<and> (\<forall>t. baseType info = TTime
          \<and> Parse L (if format info \<noteq> [] then format info else defaultTimeFormat)
               (if value' info = [] then defaultval info else value' info) = Some t \<longrightarrow>
        convertToType L info = Inr (VTime t))
   \<and> (\<forall>n. baseType info = TDuration
          \<and> ParseDuration L (if value' info = [] then defaultval info else value' info) = Some n \<longrightarrow>
        convertToType L info = Inr (VDuration n))
   \<and> (value' info = [] \<and> defaultval info = []
        \<and> (baseType info = TInt \<or> baseType info = TFloat \<or> baseType info = TDuration
             \<or> (baseType info = TTime \<and> format info = [])) \<longrightarrow>
        convertToType L info = Inl (ConversionError []))"
proof (intro conjI)
  show "value' info = [] \<longrightarrow>
      convertToType L info = convertToType L (info\<lparr>value' := defaultval info\<rparr>)"
    by (simp add: convertToType_default)
  show "value' info \<noteq> [] \<longrightarrow>
      convertToType L info = convertToType L (info\<lparr>defaultval := d\<rparr>)"
    by (cases "baseType info") (simp_all add: convertToType_def Let_def)
  show "(\<exists>err. convertToType L info = Inl err) \<longleftrightarrow>
        (baseType info = TInt
           \<and> Atoi (if value' info = [] then defaultval info else value' info) = None)
        \<or> (baseType info = TFloat
           \<and> ParseFloat L (if value' info = [] then defaultval info else value' info) = None)
        \<or> (baseType info = TTime
           \<and> Parse L (if format info \<noteq> [] then format info else defaultTimeFormat)
                (if value' info = [] then defaultval info else value' info) = None)
        \<or> (baseType info = TDuration
           \<and> ParseDuration L (if value' info = [] then defaultval info else value' info) = None)
        \<or> baseType info = TOther"
    by (cases "baseType info") (auto simp: convertToType_def Let_def split: option.splits)
  show "baseType info \<noteq> TOther \<longrightarrow> (\<forall>err. convertToType L info = Inl err \<longrightarrow>
        err = ConversionError (if value' info = [] then defaultval info else value' info))"
    by (cases "baseType info") (auto simp: convertToType_def Let_def split: option.splits)
  show "baseType info = TBool \<longrightarrow> convertToType L info = Inr (VBool True)"
    by (simp add: convertToType_def)
  show "baseType info = TString \<longrightarrow>
        convertToType L info
          = Inr (VString (if value' info = [] then defaultval info else value' info))"
    by (simp add: convertToType_def)
  show "\<forall>i. baseType info = TInt
          \<and> Atoi (if value' info = [] then defaultval info else value' info) = Some i \<longrightarrow>
        convertToType L info = Inr (VInt i)"
    by (simp add: convertToType_def)
  show "\<forall>f. baseType info = TFloat
          \<and> ParseFloat L (if value' info = [] then defaultval info else value' info) = Some f \<longrightarrow>
        convertToType L info = Inr (VFloat f)"
    by (simp add: convertToType_def)
  show "\<forall>t. baseType info = TTime
          \<and> Parse L (if format info \<noteq> [] then format info else defaultTimeFormat)
               (if value' info = [] then defaultval info else value' info) = Some t \<longrightarrow>
        convertToType L info = Inr (VTime t)"
    by (simp add: convertToType_def Let_def)
  show "\<forall>n. baseType info = TDuration
          \<and> ParseDuration L (if value' info = [] then defaultval info else value' info) = Some n \<longrightarrow>
        convertToType L info = Inr (VDuration n)"
    by (simp add: convertToType_def)
  show "value' info = [] \<and> defaultval info = []
        \<and> (baseType info = TInt \<or> baseType info = TFloat \<or> baseType info = TDuration
             \<or> (baseType info = TTime \<and> format info = [])) \<longrightarrow>
        convertToType L info = Inl (ConversionError [])"
    by (auto simp: convertToType_def Atoi_empty ParseFloat_def Parse_def ParseDuration_def)
qed


text \<open>
  An integer slot with default \<open>1\<close>: an empty value converts to 1, the value \<open>0\<close> to 0
  whatever the default, and the value \<open>a\<close> fails although the default would convert;
  without a default the empty value fails. A string slot with default \<open>Y\<close> and an empty
  value converts to \<open>Y\<close>. A float, a duration and a time slot without default and
  without format fail on the empty value, whatever the library makes of other strings.
\<close>

theorem convertToType_rules_witness:
  "convertToType rejecting (mkField ''I'' TInt False ''1'') = Inr (VInt 1)
   \<and> convertToType rejecting ((mkField ''I'' TInt False ''1'')\<lparr>value' := ''0''\<rparr>) = Inr (VInt 0)
   \<and> (\<exists>err. convertToType rejecting ((mkField ''I'' TInt False ''1'')\<lparr>value' := ''a''\<rparr>)
         = Inl err)
   \<and> convertToType rejecting (mkField ''I'' TInt False []) = Inl (ConversionError [])
   \<and> convertToType rejecting (mkField ''S'' TString False ''Y'') = Inr (VString ''Y'')
   \<and> (\<forall>L. convertToType L (mkField ''F'' TFloat False []) = Inl (ConversionError []))
   \<and> (\<forall>L. convertToType L (mkField ''D'' TDuration False []) = Inl (ConversionError []))
   \<and> (\<forall>L. convertToType L (mkField ''T'' TTime False []) = Inl (ConversionError []))"
proof -
  let ?D = "mkField ''I'' TInt False ''1''"
  let ?Z = "(mkField ''I'' TInt False ''1'')\<lparr>value' := ''0''\<rparr>"
  let ?A = "(mkField ''I'' TInt False ''1'')\<lparr>value' := ''a''\<rparr>"
  let ?E = "mkField ''I'' TInt False []"
  let ?S = "mkField ''S'' TString False ''Y''"
  have a: "convertToType rejecting ?D = Inr (VInt 1)"
    using convertToType_rules [of ?D rejecting "[]", THEN conjunct2, THEN conjunct2,
        THEN conjunct2, THEN conjunct2, THEN conjunct2, THEN conjunct2, THEN conjunct1]
    by (simp add: Atoi_def digit_def mkField_def)
  have b: "convertToType rejecting ?Z = Inr (VInt 0)"
    using convertToType_rules [of ?Z rejecting "[]", THEN conjunct2, THEN conjunct2,
        THEN conjunct2, THEN conjunct2, THEN conjunct2, THEN conjunct2, THEN conjunct1]
    by (simp add: Atoi_def digit_def mkField_def)
  have c: "\<exists>err. convertToType rejecting ?A = Inl err"
    using convertToType_rules [of ?A rejecting "[]", THEN conjunct2, THEN conjunct2,
        THEN conjunct1]
    by (simp add: Atoi_def digit_def mkField_def)
  have empty: "convertToType L (mkField n t False []) = Inl (ConversionError [])"
    if "t = TInt \<or> t = TFloat \<or> t = TDuration \<or> t = TTime" for L n t
    using that
      convertToType_rules [of "mkField n t False []" L "[]", THEN conjunct2, THEN conjunct2,
        THEN conjunct2, THEN conjunct2, THEN conjunct2, THEN conjunct2, THEN conjunct2,
        THEN conjunct2, THEN conjunct2, THEN conjunct2]
    by (simp add: mkField_def)
  have e: "convertToType rejecting ?S = Inr (VString ''Y'')"
    using convertToType_rules [of ?S rejecting "[]", THEN conjunct2, THEN conjunct2,
        THEN conjunct2, THEN conjunct2, THEN conjunct2, THEN conjunct1]
    by (simp add: mkField_def)
  from a b c e empty [of TInt] empty [of TFloat] empty [of TDuration] empty [of TTime]
  show ?thesis by simp
qed

text \<open>
  The claim has every kind fail on an empty input without default. A string slot
  converts it to the empty string and a boolean slot to \<open>true\<close>.
\<close>

theorem convertToType_empty_counterexample:
  "convertToType rejecting (mkField ''S'' TString False []) = Inr (VString [])
   \<and> convertToType rejecting (mkField ''B'' TBool False []) = Inr (VBool True)"
  by (simp add: convertToType_def mkField_def)

end
